theory Spec2Isabelle
  imports Complex_Main
begin

section \<open>Data model\<close>

text \<open>
  The geometry engine of the MAC calculator (\<^verbatim>\<open>MACCalculator\<close>, \<^verbatim>\<open>thomasAlgorithm\<close>,
  \<^verbatim>\<open>CubicSpline\<close>). A JavaScript number is modelled as the real number it stands for;
  NaN and the infinities are not modelled. In the interpolation, the tridiagonal solver,
  the spline fitter and the Bezier evaluation the arithmetic is exact: what is proved of
  them is which equations hold and which branch is taken, and rounding only perturbs the
  last digits of their values. In the two coordinate transforms and in \<^verbatim>\<open>calculate\<close> every
  arithmetic operation is rounded to a double (section \<open>Double arithmetic\<close>), because
  there the rounding decides how many iterations a loop makes, whether it ends, and which
  branch is taken. A point \<^verbatim>\<open>{x, y}\<close> is a record; the fields are named \<open>px\<close> and
  \<open>py\<close>.
\<close>

record point =
  px :: real
  py :: real

text \<open>One cubic Bezier piece \<^verbatim>\<open>{p1, cp1, cp2, p2}\<close> pushed by \<^verbatim>\<open>CubicSpline.solve\<close>.\<close>

record bezier =
  p1 :: point
  cp1 :: point
  cp2 :: point
  p2 :: point

text \<open>The symmetry line \<^verbatim>\<open>{p1, p2}\<close>; its fields are named \<open>sp1\<close> and \<open>sp2\<close>.\<close>

record symmetry_line =
  sp1 :: point
  sp2 :: point

text \<open>
  A drawn segment is either the object \<^verbatim>\<open>{type: 'LINE', points}\<close> or a
  \<^verbatim>\<open>CubicSpline\<close> instance (fields \<^verbatim>\<open>points\<close>, \<^verbatim>\<open>bezierPoints\<close>, and
  \<^verbatim>\<open>type = 'SPLINE'\<close>). A missing \<^verbatim>\<open>bezierPoints\<close> property is \<open>None\<close>.
\<close>

datatype shape_type = LINE | SPLINE

record shape =
  stype :: shape_type
  points :: "point list"
  bezierPoints :: "bezier list option"

text \<open>The object returned by \<^verbatim>\<open>MACCalculator.calculate\<close>.\<close>

record MACResult =
  MAC :: real
  Area :: real
  MAC_pixels :: real
  Y_mac_pixels :: real
  X_le_mac_pixels :: real
  scaleFactor :: real
  rotationAngle :: real
  origin :: point

text \<open>
  The errors of the computation: the three \<^verbatim>\<open>throw new Error(...)\<close> of
  \<^verbatim>\<open>calculate\<close>, and the TypeError that JavaScript raises when a field of
  \<^verbatim>\<open>undefined\<close> is read (\<^verbatim>\<open>samples[0].y\<close> on an empty array).
\<close>

datatype error = InsufficientPoints | ZeroSpan | ZeroArea | TypeError

section \<open>Chord profile: interpolateX\<close>

text \<open>
  The \<^verbatim>\<open>for\<close> loop of \<^verbatim>\<open>interpolateX\<close> from index \<open>i\<close> on, with the
  \<^verbatim>\<open>return samples[samples.length - 1].x\<close> that follows it.
\<close>

function interp_scan :: "point list \<Rightarrow> real \<Rightarrow> nat \<Rightarrow> real" where
  "interp_scan samples y i =
     (if i + 1 < length samples then
        (if py (samples ! i) \<le> y \<and> py (samples ! (i + 1)) \<ge> y then
           (let dy = py (samples ! (i + 1)) - py (samples ! i) in
            if dy = 0 then px (samples ! i)
            else (let t = (y - py (samples ! i)) / dy in
                  px (samples ! i) + t * (px (samples ! (i + 1)) - px (samples ! i))))
         else interp_scan samples y (i + 1))
      else px (samples ! (length samples - 1)))"
  by pat_completeness auto
termination
  by (relation "measure (\<lambda>(samples, y, i). length samples - i)") auto

declare interp_scan.simps [simp del]

definition interpolateX :: "point list \<Rightarrow> real \<Rightarrow> error + real" where
  "interpolateX samples y =
     (if samples = [] then Inl TypeError
      else if y < py (samples ! 0) \<or> y > py (samples ! (length samples - 1)) then
        (if \<bar>y - py (samples ! 0)\<bar> < 1 / 1000000000 then Inr (px (samples ! 0))
         else if \<bar>y - py (samples ! (length samples - 1))\<bar> < 1 / 1000000000
              then Inr (px (samples ! (length samples - 1)))
         else Inr 0)
      else Inr (interp_scan samples y 0))"

text \<open>
  Vocabulary for the interpolation property: sample \<open>i\<close> and its successor bracket
  \<open>y\<close>, and the value interpolated linearly on that pair (the left sample's chord
  value when the two span positions coincide).
\<close>

definition bracket :: "point list \<Rightarrow> real \<Rightarrow> nat \<Rightarrow> bool" where
  "bracket samples y i \<longleftrightarrow> py (samples ! i) \<le> y \<and> y \<le> py (samples ! (i + 1))"

definition lerp :: "point list \<Rightarrow> real \<Rightarrow> nat \<Rightarrow> real" where
  "lerp samples y i =
     (if py (samples ! (i + 1)) - py (samples ! i) = 0 then px (samples ! i)
      else px (samples ! i) +
           ((y - py (samples ! i)) / (py (samples ! (i + 1)) - py (samples ! i))) *
           (px (samples ! (i + 1)) - px (samples ! i)))"

section \<open>Double arithmetic\<close>

text \<open>
  Rounding to the nearest integer, ties to the even one.
\<close>

definition round_even :: "real \<Rightarrow> int" where
  "round_even t =
     (let f = \<lfloor>t\<rfloor>; d = t - of_int f
      in if d < 1 / 2 then f else if d > 1 / 2 then f + 1 else if even f then f else f + 1)"

text \<open>
  \<open>fl x\<close> is the number with a significand of 53 bits nearest to \<open>x\<close>, ties to even:
  the rounding of IEEE 754 binary64 in its default mode, with the range of the exponent
  taken as unbounded (no overflow to infinity, no underflow to zero or to a subnormal
  number). \<open>e\<close> is the binary exponent of \<open>x\<close> and \<open>q\<close> the spacing of the doubles
  around \<open>x\<close>.
\<close>

definition fl :: "real \<Rightarrow> real" where
  "fl x =
     (if x = 0 then 0
      else (let e = \<lfloor>log 2 \<bar>x\<bar>\<rfloor>;
                q = 2 powr (of_int (e - 52))
            in q * of_int (round_even (x / q))))"

text \<open>
  The operators \<^verbatim>\<open>+\<close>, \<^verbatim>\<open>-\<close>, \<^verbatim>\<open>*\<close> and \<^verbatim>\<open>/\<close> on doubles: the exact result, rounded.
  Negation, \<^verbatim>\<open>Math.abs\<close>, \<^verbatim>\<open>Math.max\<close>, \<^verbatim>\<open>Math.min\<close> and the comparisons are exact.
\<close>

definition fl_add :: "real \<Rightarrow> real \<Rightarrow> real" where
  "fl_add a b = fl (a + b)"

definition fl_sub :: "real \<Rightarrow> real \<Rightarrow> real" where
  "fl_sub a b = fl (a - b)"

definition fl_mul :: "real \<Rightarrow> real \<Rightarrow> real" where
  "fl_mul a b = fl (a * b)"


text \<open>
  \<^verbatim>\<open>Math.atan2(y, x)\<close> on reals: the angle in \<open>(-\<pi>, \<pi>]\<close> of the point \<open>(x, y)\<close>,
  and \<open>0\<close> at the origin.
\<close>

definition atan2 :: "real \<Rightarrow> real \<Rightarrow> real" where
  "atan2 y x =
     (if x > 0 then arctan (y / x)
      else if x < 0 then (if y \<ge> 0 then arctan (y / x) + pi else arctan (y / x) - pi)
      else if y > 0 then pi / 2
      else if y < 0 then - (pi / 2)
      else 0)"

text \<open>
  \<^verbatim>\<open>Math.cos\<close>, \<^verbatim>\<open>Math.sin\<close> and \<^verbatim>\<open>Math.atan2\<close> are taken as correctly rounded: the
  real function, rounded. The language only asks for an approximation. The examples
  below use the values at \<open>0\<close> only, and the bound on the round trip of the transform
  uses only that the rounded cosine and sine are within \<open>2^-53\<close> of the exact ones.
\<close>

definition Math_cos :: "real \<Rightarrow> real" where
  "Math_cos a = fl (cos a)"

definition Math_sin :: "real \<Rightarrow> real" where
  "Math_sin a = fl (sin a)"

definition Math_atan2 :: "real \<Rightarrow> real \<Rightarrow> real" where
  "Math_atan2 y x = fl (atan2 y x)"

section \<open>Coordinate transform\<close>

text \<open>The \<^verbatim>\<open>angle\<close> computed at the start of \<^verbatim>\<open>calculate\<close>.\<close>

definition symAngle :: "symmetry_line \<Rightarrow> real" where
  "symAngle symmetryLine =
     (let symDx = fl_sub (px (sp2 symmetryLine)) (px (sp1 symmetryLine));
          symDy = fl_sub (py (sp2 symmetryLine)) (py (sp1 symmetryLine))
      in Math_atan2 symDy symDx)"

text \<open>The closure \<^verbatim>\<open>transform\<close> of \<^verbatim>\<open>calculate\<close>, over the line and its angle.\<close>

definition transform :: "symmetry_line \<Rightarrow> real \<Rightarrow> point \<Rightarrow> point" where
  "transform symmetryLine angle p =
     (let tx = fl_sub (px p) (px (sp1 symmetryLine));
          ty = fl_sub (py p) (py (sp1 symmetryLine));
          rx = fl_sub (fl_mul tx (Math_cos (- angle))) (fl_mul ty (Math_sin (- angle)));
          ry = fl_add (fl_mul tx (Math_sin (- angle))) (fl_mul ty (Math_cos (- angle)))
      in \<lparr>px = rx, py = ry\<rparr>)"

text \<open>
  The closure \<^verbatim>\<open>invRotate\<close> of \<^verbatim>\<open>performCalculation\<close>, over the result, with
  every operation rounded.
\<close>

definition invRotate :: "MACResult \<Rightarrow> real \<Rightarrow> real \<Rightarrow> point" where
  "invRotate result x y =
     (let realAngle = rotationAngle result;
          tx = fl_sub (fl_mul x (Math_cos realAngle)) (fl_mul y (Math_sin realAngle));
          ty = fl_add (fl_mul x (Math_sin realAngle)) (fl_mul y (Math_cos realAngle))
      in \<lparr>px = fl_add tx (px (origin result)), py = fl_add ty (py (origin result))\<rparr>)"

section \<open>Tridiagonal solver\<close>

text \<open>
  \<^verbatim>\<open>Float64Array(n)\<close> is a list of \<open>n\<close> zeros, and a write \<^verbatim>\<open>arr[i] = v\<close> is
  \<open>arr[i := v]\<close> (a typed array ignores a write out of range, as the list update
  does). A read out of range gives \<^verbatim>\<open>undefined\<close> in the source and an unspecified
  value here: the solver is only called by \<^verbatim>\<open>solve\<close>, with four arrays of one
  length \<open>n \<ge> 2\<close>, where every index read is in range.
\<close>

text \<open>The forward elimination loop, from index \<open>i\<close>.\<close>

function thomas_forward ::
  "real list \<Rightarrow> real list \<Rightarrow> real list \<Rightarrow> real list \<Rightarrow> nat \<Rightarrow> nat \<Rightarrow>
   real list \<times> real list \<Rightarrow> real list \<times> real list" where
  "thomas_forward a b c d n i (cPrime, dPrime) =
     (if i < n then
        (let demon = b ! i - a ! i * cPrime ! (i - 1);
             cPrime' = (if i < n - 1 then cPrime[i := c ! i / demon] else cPrime);
             dPrime' = dPrime[i := (d ! i - a ! i * dPrime ! (i - 1)) / demon]
         in thomas_forward a b c d n (i + 1) (cPrime', dPrime'))
      else (cPrime, dPrime))"
  by pat_completeness auto
termination
  by (relation "measure (\<lambda>(a, b, c, d, n, i, s). n - i)") auto

declare thomas_forward.simps [simp del]

text \<open>
  The back substitution loop \<^verbatim>\<open>for (i = n - 2; i >= 0; i--)\<close>; the counter \<open>k\<close>
  is \<open>i + 1\<close>, so that it stays a natural number.
\<close>

fun thomas_back :: "real list \<Rightarrow> real list \<Rightarrow> nat \<Rightarrow> real list \<Rightarrow> real list" where
  "thomas_back cPrime dPrime 0 x = x"
| "thomas_back cPrime dPrime (Suc i) x =
     thomas_back cPrime dPrime i (x[i := dPrime ! i - cPrime ! i * x ! (i + 1)])"

definition thomasAlgorithm ::
  "real list \<Rightarrow> real list \<Rightarrow> real list \<Rightarrow> real list \<Rightarrow> real list" where
  "thomasAlgorithm a b c d =
     (let n = length d;
          cPrime0 = (replicate n 0)[0 := c ! 0 / b ! 0];
          dPrime0 = (replicate n 0)[0 := d ! 0 / b ! 0];
          (cPrime, dPrime) = thomas_forward a b c d n 1 (cPrime0, dPrime0);
          x = (replicate n 0)[n - 1 := dPrime ! (n - 1)]
      in thomas_back cPrime dPrime (n - 1) x)"

section \<open>Spline fitter\<close>

text \<open>
  The three diagonals that \<^verbatim>\<open>solve\<close> builds for \<open>n + 1\<close> knots, with the boundary
  rows written in the order of the source.
\<close>

definition diag_a :: "nat \<Rightarrow> real list" where
  "diag_a n = (replicate (n + 1) 1)[n := 1]"

definition diag_b :: "nat \<Rightarrow> real list" where
  "diag_b n = (replicate (n + 1) 4)[0 := 2, n := 2]"

definition diag_c :: "nat \<Rightarrow> real list" where
  "diag_c n = (replicate (n + 1) 1)[0 := 1]"

text \<open>
  The right-hand side of one axis (\<^verbatim>\<open>rhsX\<close> with \<open>coord = px\<close>, \<^verbatim>\<open>rhsY\<close> with
  \<open>coord = py\<close>): first row, the loop over the interior rows, last row.
\<close>

definition fill_rhs :: "(point \<Rightarrow> real) \<Rightarrow> point list \<Rightarrow> real list" where
  "fill_rhs coord pts =
     (let n = length pts - 1;
          r0 = (replicate (n + 1) 0)[0 := 3 * (coord (pts ! 1) - coord (pts ! 0))];
          r1 = fold (\<lambda>i r. r[i := 3 * (coord (pts ! (i + 1)) - coord (pts ! (i - 1)))])
                 [1..<n] r0
      in r1[n := 3 * (coord (pts ! n) - coord (pts ! (n - 1)))])"

text \<open>The tangents of one axis: \<^verbatim>\<open>Dx\<close> and \<^verbatim>\<open>Dy\<close> of \<^verbatim>\<open>solve\<close>.\<close>

definition tangents :: "(point \<Rightarrow> real) \<Rightarrow> point list \<Rightarrow> real list" where
  "tangents coord pts =
     (let n = length pts - 1
      in thomasAlgorithm (diag_a n) (diag_b n) (diag_c n) (fill_rhs coord pts))"

text \<open>
  \<^verbatim>\<open>solve\<close> returns the new value of \<^verbatim>\<open>this.bezierPoints\<close>. With fewer than two
  points the method returns at once and the list stays the empty one of the constructor.
\<close>

definition solve :: "point list \<Rightarrow> bezier list" where
  "solve pts =
     (if \<not> length pts \<ge> 2 then []
      else
        (let n = length pts - 1;
             Dx = tangents px pts;
             Dy = tangents py pts
         in map (\<lambda>i.
              \<lparr>p1 = pts ! i,
               cp1 = \<lparr>px = px (pts ! i) + Dx ! i / 3, py = py (pts ! i) + Dy ! i / 3\<rparr>,
               cp2 = \<lparr>px = px (pts ! (i + 1)) - Dx ! (i + 1) / 3,
                      py = py (pts ! (i + 1)) - Dy ! (i + 1) / 3\<rparr>,
               p2 = pts ! (i + 1)\<rparr>) [0..<n]))"

text \<open>
  The constructor of \<^verbatim>\<open>CubicSpline\<close>, with the \<^verbatim>\<open>type\<close> that
  \<^verbatim>\<open>createShapeFromPoints\<close> sets on the new object.
\<close>

definition CubicSpline :: "point list \<Rightarrow> shape" where
  "CubicSpline pts =
     \<lparr>stype = SPLINE, points = pts,
      bezierPoints = Some (if length pts > 1 then solve pts else [])\<rparr>"

text \<open>\<^verbatim>\<open>createShapeFromPoints\<close> of the interaction controller, by its \<^verbatim>\<open>subMode\<close>.\<close>

definition createShapeFromPoints :: "shape_type \<Rightarrow> point list \<Rightarrow> shape" where
  "createShapeFromPoints subMode pts =
     (if subMode = LINE then \<lparr>stype = LINE, points = pts, bezierPoints = None\<rparr>
      else CubicSpline pts)"

section \<open>Curve sampling\<close>

definition getBezierPoint :: "bezier \<Rightarrow> real \<Rightarrow> point" where
  "getBezierPoint seg t =
     (let mt = 1 - t;
          mt2 = mt * mt;
          mt3 = mt * mt * mt;
          t2 = t * t;
          t3 = t * t * t
      in \<lparr>px = mt3 * px (p1 seg) + 3 * mt2 * t * px (cp1 seg) + 3 * mt * t2 * px (cp2 seg)
                + t3 * px (p2 seg),
          py = mt3 * py (p1 seg) + 3 * mt2 * t * py (cp1 seg) + 3 * mt * t2 * py (cp2 seg)
                + t3 * py (p2 seg)\<rparr>)"

definition sampleShape :: "shape \<Rightarrow> (point \<Rightarrow> point) \<Rightarrow> point list" where
  "sampleShape shp tr =
     (if stype shp = LINE then map tr (points shp)
      else (case bezierPoints shp of
              Some segs \<Rightarrow>
                concat (map (\<lambda>seg. map (\<lambda>i. tr (getBezierPoint seg (real i / 10))) [0..<11])
                            segs)
            | None \<Rightarrow> map tr (points shp)))"

text \<open>
  \<^verbatim>\<open>Array.prototype.sort\<close> with the comparator \<^verbatim>\<open>a.y - b.y\<close> is a stable sort by
  \<open>py\<close>, as \<open>sort_key\<close> is.
\<close>

definition sampleSegments :: "shape list \<Rightarrow> (point \<Rightarrow> point) \<Rightarrow> point list" where
  "sampleSegments segments tr =
     sort_key py (concat (map (\<lambda>shp. sampleShape shp tr) segments))"

definition getMinY :: "point list \<Rightarrow> real" where
  "getMinY samples = (if samples = [] then 0 else py (samples ! 0))"

definition getMaxY :: "point list \<Rightarrow> real" where
  "getMaxY samples = (if samples = [] then 0 else py (samples ! (length samples - 1)))"

definition getMaxDist :: "point list \<Rightarrow> real" where
  "getMaxDist samples =
     (if samples = [] then 0 else fold (\<lambda>p m. max m \<bar>py p\<bar>) samples 0)"

section \<open>Integration, location of the MAC, scaling\<close>







section \<open>Vocabulary of the integration claims\<close>




text \<open>\<^verbatim>\<open>minY\<close>, \<^verbatim>\<open>maxY\<close> and \<^verbatim>\<open>dy\<close> of \<^verbatim>\<open>calculate\<close>, as functions of the two profiles.\<close>

definition spanMin :: "point list \<Rightarrow> point list \<Rightarrow> real" where
  "spanMin LE_samples TE_samples = max (getMinY LE_samples) (getMinY TE_samples)"

definition spanMax :: "point list \<Rightarrow> point list \<Rightarrow> real" where
  "spanMax LE_samples TE_samples = min (getMaxY LE_samples) (getMaxY TE_samples)"





section \<open>Example inputs\<close>

text \<open>
  A rectangular wing of chord 2 over the span \<open>[0, 10]\<close>, the same over the span
  \<open>[0, 1000]\<close> (where the step is \<open>1\<close> and every position is an integer), two edges
  whose spans \<open>[0, 1]\<close> and \<open>[2, 3]\<close> do not overlap, the symmetry line along the x axis
  (angle \<open>0\<close>), and a polyline segment.
\<close>

abbreviation rectLE :: "point list" where
  "rectLE \<equiv> [\<lparr>px = 0, py = 0\<rparr>, \<lparr>px = 0, py = 10\<rparr>]"

abbreviation rectTE :: "point list" where
  "rectTE \<equiv> [\<lparr>px = 2, py = 0\<rparr>, \<lparr>px = 2, py = 10\<rparr>]"





abbreviation axisLine :: symmetry_line where
  "axisLine \<equiv> \<lparr>sp1 = \<lparr>px = 0, py = 0\<rparr>, sp2 = \<lparr>px = 1, py = 0\<rparr>\<rparr>"

text \<open>A symmetry line along the x axis that starts at \<open>(2^27, 0)\<close>.\<close>

abbreviation farLine :: symmetry_line where
  "farLine \<equiv> \<lparr>sp1 = \<lparr>px = 134217728, py = 0\<rparr>, sp2 = \<lparr>px = 134217729, py = 0\<rparr>\<rparr>"

abbreviation polyline :: "point list \<Rightarrow> shape" where
  "polyline pts \<equiv> \<lparr>stype = LINE, points = pts, bezierPoints = None\<rparr>"

text \<open>Three knots for the spline fitter.\<close>

abbreviation knots3 :: "point list" where
  "knots3 \<equiv> [\<lparr>px = 0, py = 0\<rparr>, \<lparr>px = 1, py = 1\<rparr>, \<lparr>px = 2, py = 0\<rparr>]"

section \<open>Properties of the chord profile\<close>

lemma interp_scan_first_bracket:
  "i + 1 < length samples \<Longrightarrow> py (samples ! i) \<le> y \<Longrightarrow>
   y \<le> py (samples ! (length samples - 1)) \<Longrightarrow> (\<forall>j<i. \<not> bracket samples y j) \<Longrightarrow>
   \<exists>k. k + 1 < length samples \<and> bracket samples y k \<and> (\<forall>j<k. \<not> bracket samples y j) \<and>
       interp_scan samples y i = lerp samples y k"
proof (induction samples y i rule: interp_scan.induct)
  case (1 samples y i)
  show ?case
  proof (cases "bracket samples y i")
    case True
    then have "interp_scan samples y i = lerp samples y i"
      using "1.prems"(1) by (subst interp_scan.simps) (simp add: bracket_def lerp_def Let_def)
    with True "1.prems" show ?thesis by blast
  next
    case False
    with "1.prems"(2) have lt: "py (samples ! (i + 1)) < y" by (simp add: bracket_def)
    have more: "i + 1 + 1 < length samples"
    proof (rule ccontr)
      assume "\<not> i + 1 + 1 < length samples"
      with "1.prems"(1) have "i + 1 = length samples - 1" by simp
      with lt "1.prems"(3) show False by simp
    qed
    have nb: "\<forall>j<i + 1. \<not> bracket samples y j"
      using False "1.prems"(4) by (auto simp: less_Suc_eq)
    have nb': "\<not> (py (samples ! i) \<le> y \<and> py (samples ! (i + 1)) \<ge> y)"
      using False by (simp add: bracket_def)
    from "1.IH"[OF "1.prems"(1) nb' more _ "1.prems"(3) nb] lt
    obtain k where k: "k + 1 < length samples" "bracket samples y k"
      "\<forall>j<k. \<not> bracket samples y j" "interp_scan samples y (i + 1) = lerp samples y k"
      by auto
    have "interp_scan samples y i = interp_scan samples y (i + 1)"
      using "1.prems"(1) nb' by (subst interp_scan.simps) (auto simp: Let_def)
    with k show ?thesis by auto
  qed
qed

lemma interp_scan_single:
  "length samples < 2 \<Longrightarrow> interp_scan samples y 0 = px (samples ! (length samples - 1))"
  by (subst interp_scan.simps) simp

text \<open>
  C4 (as amended). For a nonempty profile and a query position \<open>y\<close>. Within
  \<open>[first.y, last.y]\<close>: a profile of one sample gives that sample's chord value; a
  profile of two or more samples has a first adjacent pair that brackets \<open>y\<close>, and the
  result is the linear interpolation on that pair, the left sample's chord value when
  the pair has zero span-delta. Outside the range: the first sample's chord value when
  \<open>y\<close> is within \<open>1e-9\<close> of the first span position, else the last sample's chord value
  when \<open>y\<close> is within \<open>1e-9\<close> of the last span position, else \<open>0\<close>. The profile need
  not be sorted for this.
\<close>

theorem interpolateX_profile:
  assumes "samples \<noteq> []"
  shows "(py (samples ! 0) \<le> y \<and> y \<le> py (samples ! (length samples - 1)) \<longrightarrow>
            (if length samples = 1 then interpolateX samples y = Inr (px (samples ! 0))
             else \<exists>k. k + 1 < length samples \<and> bracket samples y k \<and>
                      (\<forall>j<k. \<not> bracket samples y j) \<and>
                      interpolateX samples y = Inr (lerp samples y k))) \<and>
         (y < py (samples ! 0) \<or> y > py (samples ! (length samples - 1)) \<longrightarrow>
            interpolateX samples y =
              Inr (if \<bar>y - py (samples ! 0)\<bar> < 1 / 1000000000 then px (samples ! 0)
                   else if \<bar>y - py (samples ! (length samples - 1))\<bar> < 1 / 1000000000
                        then px (samples ! (length samples - 1))
                   else 0))"
proof (intro conjI impI)
  assume r: "py (samples ! 0) \<le> y \<and> y \<le> py (samples ! (length samples - 1))"
  then have eq: "interpolateX samples y = Inr (interp_scan samples y 0)"
    using assms by (simp add: interpolateX_def)
  show "if length samples = 1 then interpolateX samples y = Inr (px (samples ! 0))
        else \<exists>k. k + 1 < length samples \<and> bracket samples y k \<and>
                 (\<forall>j<k. \<not> bracket samples y j) \<and>
                 interpolateX samples y = Inr (lerp samples y k)"
  proof (cases "length samples = 1")
    case True
    then show ?thesis using eq interp_scan_single[of samples y] by simp
  next
    case False
    with assms have "0 + 1 < length samples"
      by (cases samples) auto
    from interp_scan_first_bracket[OF this, of y] r eq False show ?thesis by simp
  qed
next
  assume "y < py (samples ! 0) \<or> y > py (samples ! (length samples - 1))"
  then show "interpolateX samples y =
      Inr (if \<bar>y - py (samples ! 0)\<bar> < 1 / 1000000000 then px (samples ! 0)
           else if \<bar>y - py (samples ! (length samples - 1))\<bar> < 1 / 1000000000
                then px (samples ! (length samples - 1))
           else 0)"
    using assms by (simp add: interpolateX_def)
qed

theorem interpolateX_profile_witness:
  "interpolateX [\<lparr>px = 1, py = 0\<rparr>, \<lparr>px = 3, py = 2\<rparr>] 1 = Inr 2 \<and>
   interpolateX [\<lparr>px = 1, py = 0\<rparr>, \<lparr>px = 3, py = 2\<rparr>] 3 = Inr 0"
proof -
  let ?s = "[\<lparr>px = 1, py = 0\<rparr>, \<lparr>px = 3, py = 2\<rparr>]"
  have ne: "?s \<noteq> []" by simp
  from interpolateX_profile[OF ne, of 1]
  obtain k where k: "k + 1 < length ?s" "interpolateX ?s 1 = Inr (lerp ?s 1 k)"
    by auto
  from k(1) have "k = 0" by simp
  with k(2) have a: "interpolateX ?s 1 = Inr 2" by (simp add: lerp_def)
  from interpolateX_profile[OF ne, of 3] have b: "interpolateX ?s 3 = Inr 0" by simp
  from a b show ?thesis by simp
qed

text \<open>
  The claim as written fails on a profile of one sample: a query at its span position
  is within range, there is no adjacent pair, and the result is the sample's chord value.
\<close>

theorem interpolateX_single_sample_counterexample:
  "\<not> (\<exists>k. k + 1 < length [\<lparr>px = 5, py = 0\<rparr>] \<and> bracket [\<lparr>px = 5, py = 0\<rparr>] 0 k \<and>
          interpolateX [\<lparr>px = 5, py = 0\<rparr>] 0 = Inr (lerp [\<lparr>px = 5, py = 0\<rparr>] 0 k)) \<and>
   interpolateX [\<lparr>px = 5, py = 0\<rparr>] 0 = Inr 5"
  by (simp add: interpolateX_def interp_scan_single)

section \<open>Properties of the rounding\<close>

lemma round_even_of_int: "round_even (of_int n) = n"
  by (simp add: round_even_def)


lemma fl_0: "fl 0 = 0"
  by (simp add: fl_def)


lemma fl_of_int:
  assumes "\<bar>n\<bar> < 2 ^ 53"
  shows "fl (of_int n) = of_int n"
proof (cases "n = 0")
  case True then show ?thesis by (simp add: fl_0)
next
  case False
  define x :: real where "x = of_int n"
  define e where "e = \<lfloor>log 2 \<bar>x\<bar>\<rfloor>"
  define q :: real where "q = 2 powr (of_int (e - 52))"
  have nz: "x \<noteq> 0" using False by (simp add: x_def)
  have ge1: "1 \<le> \<bar>x\<bar>" using False unfolding x_def
    by (metis of_int_abs of_int_1_le_iff zero_less_abs_iff int_one_le_iff_zero_less)
  have lt: "\<bar>x\<bar> < 2 ^ 53" using assms unfolding x_def
    by (metis of_int_abs of_int_less_iff of_int_numeral of_int_power)
  have "0 \<le> log 2 \<bar>x\<bar>" using ge1 by simp
  then have e0: "0 \<le> e" unfolding e_def by simp
  have "log 2 \<bar>x\<bar> < 53"
  proof -
    have "(2::real) powr 53 = 2 ^ 53" using powr_realpow[of 2 53] by simp
    with lt have "\<bar>x\<bar> < 2 powr 53" by simp
    then show ?thesis using nz by (simp add: log_less_iff)
  qed
  then have e52: "e \<le> 52" unfolding e_def by (simp add: floor_le_iff)
  define k where "k = nat (52 - e)"
  have ek: "of_int (e - 52) = - real k" using e52 by (simp add: k_def)
  have q: "q = 1 / 2 ^ k"
    unfolding q_def ek by (simp add: powr_minus powr_realpow field_simps)
  have "x / q = of_int (n * 2 ^ k)" by (simp add: q x_def)
  then have "round_even (x / q) = n * 2 ^ k" by (simp only: round_even_of_int)
  then have "q * of_int (round_even (x / q)) = x" by (simp add: q x_def)
  then show ?thesis
    using nz unfolding x_def[symmetric] by (simp add: fl_def Let_def e_def q_def)
qed

lemma fl_numeral: "numeral k < (2::int) ^ 53 \<Longrightarrow> fl (numeral k) = numeral k"
  using fl_of_int[of "numeral k"] by simp

lemma fl_1: "fl 1 = 1"
  using fl_of_int[of 1] by simp


lemma fl_neg_numeral: "numeral k < (2::int) ^ 53 \<Longrightarrow> fl (- numeral k) = - numeral k"
  using fl_of_int[of "- numeral k"] by simp

lemma fl_int_valued:
  assumes "x \<in> \<int>" "\<bar>x\<bar> < 2 ^ 53"
  shows "fl x = x"
proof -
  from assms(1) obtain n where n: "x = of_int n" by (auto elim: Ints_cases)
  have "\<bar>n\<bar> < 2 ^ 53"
  proof -
    have "of_int \<bar>n\<bar> < (of_int (2 ^ 53) :: real)" using assms(2) unfolding n by simp
    then show ?thesis by (simp only: of_int_less_iff)
  qed
  then show ?thesis unfolding n by (rule fl_of_int)
qed

text \<open>
  The rounding error is at most half the spacing of the doubles, hence at most
  \<open>|x| / 2^53\<close>; and \<open>fl x\<close> is computed from the exponent of \<open>x\<close> and an integer
  within \<open>1/2\<close> of the scaled \<open>x\<close>.
\<close>

lemma round_even_error: "\<bar>of_int (round_even t) - t\<bar> \<le> 1 / 2"
proof -
  define f where "f = \<lfloor>t\<rfloor>"
  have f: "of_int f \<le> t" "t < of_int f + 1" unfolding f_def by linarith+
  have r: "round_even t = f \<and> t - of_int f \<le> 1 / 2 \<or>
           round_even t = f + 1 \<and> t - of_int f \<ge> 1 / 2"
    unfolding round_even_def Let_def f_def[symmetric] by auto
  then show ?thesis
  proof
    assume "round_even t = f \<and> t - of_int f \<le> 1 / 2"
    with f show ?thesis by simp
  next
    assume "round_even t = f + 1 \<and> t - of_int f \<ge> 1 / 2"
    with f show ?thesis by simp
  qed
qed

lemma fl_error: "\<bar>fl x - x\<bar> \<le> \<bar>x\<bar> / 2 ^ 53"
proof (cases "x = 0")
  case True
  then show ?thesis by (simp add: fl_def)
next
  case False
  define e where "e = \<lfloor>log 2 \<bar>x\<bar>\<rfloor>"
  define q :: real where "q = 2 powr (of_int (e - 52))"
  have q0: "0 < q" by (simp add: q_def)
  have fl: "fl x = q * of_int (round_even (x / q))"
    using False by (simp add: fl_def Let_def e_def q_def)
  have "of_int e \<le> log 2 \<bar>x\<bar>" unfolding e_def by linarith
  then have "2 powr (of_int e) \<le> \<bar>x\<bar>"
    using False by (simp add: le_log_iff)
  moreover have "2 powr (of_int e) = q * 2 ^ 52"
  proof -
    define c :: real where "c = 2 powr 52"
    have "2 powr (of_int e) = q * c"
      unfolding q_def c_def by (subst powr_add[symmetric]) simp
    moreover have "c = 2 ^ 52" unfolding c_def using powr_realpow[of 2 52] by simp
    ultimately show ?thesis by simp
  qed
  ultimately have qx: "q * 2 ^ 52 \<le> \<bar>x\<bar>" by simp
  have "fl x - x = q * (of_int (round_even (x / q)) - x / q)"
    using q0 by (simp add: fl algebra_simps)
  then have "\<bar>fl x - x\<bar> = q * \<bar>of_int (round_even (x / q)) - x / q\<bar>"
    using q0 by (simp add: abs_mult)
  also have "\<dots> \<le> q * (1 / 2)"
    by (rule mult_left_mono[OF round_even_error]) (use q0 in simp)
  also have "\<dots> = q * 2 ^ 52 / 2 ^ 53" by simp
  also have "\<dots> \<le> \<bar>x\<bar> / 2 ^ 53" using qx by (simp add: divide_right_mono)
  finally show ?thesis .
qed

lemma round_even_near:
  assumes "\<bar>t - of_int n\<bar> < 1 / 2"
  shows "round_even t = n"
proof (cases "of_int n \<le> t")
  case True
  with assms have "\<lfloor>t\<rfloor> = n" by (intro floor_unique) linarith+
  with assms True show ?thesis by (simp add: round_even_def Let_def)
next
  case False
  with assms have f: "\<lfloor>t\<rfloor> = n - 1" by (intro floor_unique) (simp, linarith)+
  have "\<not> t - of_int (n - 1) < 1 / 2" "t - of_int (n - 1) > 1 / 2"
    using False assms by simp_all
  then show ?thesis unfolding round_even_def Let_def f by simp
qed

lemma fl_nearest:
  assumes "2 powr (of_int e) \<le> \<bar>x\<bar>" "\<bar>x\<bar> < 2 powr (of_int e + 1)"
    and "\<bar>x / 2 powr (of_int (e - 52)) - of_int n\<bar> < 1 / 2"
  shows "fl x = 2 powr (of_int (e - 52)) * of_int n"
proof -
  have "(0::real) < 2 powr (of_int e)" by simp
  from this assms(1) have pos: "0 < \<bar>x\<bar>" by (rule less_le_trans)
  then have nz: "x \<noteq> 0" by simp
  have "of_int e \<le> log 2 \<bar>x\<bar>" using assms(1) pos by (simp add: le_log_iff)
  moreover have "log 2 \<bar>x\<bar> < of_int e + 1" using assms(2) pos by (simp add: log_less_iff)
  ultimately have e: "\<lfloor>log 2 \<bar>x\<bar>\<rfloor> = e" by (intro floor_unique)
  have r: "round_even (x / 2 powr (of_int (e - 52))) = n"
    by (rule round_even_near[OF assms(3)])
  show ?thesis
    using nz unfolding fl_def Let_def e r by simp
qed

section \<open>Properties of the integration\<close>

subsection \<open>The two loops\<close>

















subsection \<open>The rectangular wing over the span from 0 to 1000\<close>












subsection \<open>The maximum span distance and the disjoint spans\<close>

lemma fold_max_abs:
  "fold (\<lambda>p m. max m \<bar>py p\<bar>) xs m0 = Max (insert m0 ((\<lambda>p. \<bar>py p\<bar>) ` set xs))"
proof (induction xs arbitrary: m0)
  case Nil
  then show ?case by simp
next
  case (Cons x xs)
  have "Max (insert (max m0 \<bar>py x\<bar>) ((\<lambda>p. \<bar>py p\<bar>) ` set xs)) =
        Max (insert m0 (insert \<bar>py x\<bar> ((\<lambda>p. \<bar>py p\<bar>) ` set xs)))"
    by (cases "xs = []") (simp_all add: max.assoc max.commute max.left_commute)
  then show ?case by (simp add: Cons.IH)
qed

lemma getMaxDist_Max:
  assumes ne: "samples \<noteq> []"
  shows "getMaxDist samples = Max ((\<lambda>p. \<bar>py p\<bar>) ` set samples)"
proof -
  let ?S = "(\<lambda>p. \<bar>py p\<bar>) ` set samples"
  have fin: "finite ?S" by simp
  have nemp: "?S \<noteq> {}" using ne by simp
  obtain q where q: "q \<in> set samples" using ne by (cases samples) auto
  then have "\<bar>py q\<bar> \<in> ?S" by (rule imageI)
  then have "\<bar>py q\<bar> \<le> Max ?S" by (rule Max_ge[OF fin])
  then have nonneg: "0 \<le> Max ?S" by linarith
  have "Max (insert 0 ?S) = max 0 (Max ?S)" by (rule Max_insert[OF fin nemp])
  also have "\<dots> = Max ?S" using nonneg by (rule max_absorb2)
  finally have m: "Max (insert 0 ?S) = Max ?S" .
  have "getMaxDist samples = Max (insert 0 ?S)"
    using ne by (simp only: getMaxDist_def fold_max_abs if_False)
  with m show ?thesis by simp
qed

lemma maxDist_Max:
  assumes "LE \<noteq> []" "TE \<noteq> []"
  shows "max (getMaxDist LE) (getMaxDist TE) = Max ((\<lambda>p. \<bar>py p\<bar>) ` (set LE \<union> set TE))"
proof -
  have "Max ((\<lambda>p. \<bar>py p\<bar>) ` set LE \<union> (\<lambda>p. \<bar>py p\<bar>) ` set TE) =
        max (Max ((\<lambda>p. \<bar>py p\<bar>) ` set LE)) (Max ((\<lambda>p. \<bar>py p\<bar>) ` set TE))"
    using assms by (intro Max_Un) simp_all
  then show ?thesis
    using assms by (simp add: getMaxDist_Max image_Un)
qed

lemma getMaxDist_ge: "p \<in> set samples \<Longrightarrow> \<bar>py p\<bar> \<le> getMaxDist samples"
proof -
  assume p: "p \<in> set samples"
  then have ne: "samples \<noteq> []" by auto
  show ?thesis unfolding getMaxDist_Max[OF ne] using p by (intro Max_ge) simp_all
qed

lemma getMaxDist_nonneg: "0 \<le> getMaxDist samples"
proof (cases "samples = []")
  case True then show ?thesis by (simp add: getMaxDist_def)
next
  case False
  then obtain p where "p \<in> set samples" by (cases samples) auto
  from getMaxDist_ge[OF this] show ?thesis by linarith
qed


lemma maxDist_positive:
  assumes "2 \<le> length LE" "2 \<le> length TE" "spanMax LE TE \<noteq> spanMin LE TE"
  shows "0 < max (getMaxDist LE) (getMaxDist TE)"
proof (rule ccontr)
  assume "\<not> 0 < max (getMaxDist LE) (getMaxDist TE)"
  then have z: "getMaxDist LE \<le> 0" "getMaxDist TE \<le> 0" by simp_all
  have ne: "LE \<noteq> []" "TE \<noteq> []" using assms(1,2) by auto
  have mem: "LE ! 0 \<in> set LE" "LE ! (length LE - 1) \<in> set LE"
    "TE ! 0 \<in> set TE" "TE ! (length TE - 1) \<in> set TE"
    using ne by simp_all
  have "py (LE ! 0) = 0" "py (LE ! (length LE - 1)) = 0"
    "py (TE ! 0) = 0" "py (TE ! (length TE - 1)) = 0"
    using z getMaxDist_ge[OF mem(1)] getMaxDist_ge[OF mem(2)]
      getMaxDist_ge[OF mem(3)] getMaxDist_ge[OF mem(4)] by simp_all
  then have "spanMax LE TE = spanMin LE TE"
    using ne by (simp add: spanMin_def spanMax_def getMinY_def getMaxY_def)
  with assms(3) show False by simp
qed

lemma axis_angle: "symAngle axisLine = 0"
  by (simp add: symAngle_def Math_atan2_def atan2_def fl_sub_def fl_0 fl_1)

lemma axis_transform:
  "fl (px p) = px p \<Longrightarrow> fl (py p) = py p \<Longrightarrow> transform axisLine 0 p = p"
  by (simp add: transform_def Math_cos_def Math_sin_def fl_sub_def fl_add_def fl_mul_def
        fl_0 fl_1)

lemma axis_samples:
  "py a \<le> py b \<Longrightarrow> fl (px a) = px a \<Longrightarrow> fl (py a) = py a \<Longrightarrow>
   fl (px b) = px b \<Longrightarrow> fl (py b) = py b \<Longrightarrow>
   sampleSegments [polyline [a, b]] (transform axisLine (symAngle axisLine)) = [a, b]"
  by (simp add: sampleSegments_def sampleShape_def axis_angle axis_transform)








text \<open>
  C10. For two sampled profiles with at least two samples each that pass the ZeroSpan
  check (\<open>(maxY - minY) / 1000\<close> is not zero), \<^verbatim>\<open>maxDist\<close> is the maximum of \<open>|y|\<close> over
  all samples of both profiles and is strictly positive, so the division by it is
  never a division by zero.
\<close>

theorem maxDist_nonzero:
  fixes leadingSegments trailingSegments :: "shape list" and symmetryLine :: symmetry_line
  defines "LE \<equiv> sampleSegments leadingSegments (transform symmetryLine (symAngle symmetryLine))"
    and "TE \<equiv> sampleSegments trailingSegments (transform symmetryLine (symAngle symmetryLine))"
  assumes "2 \<le> length LE" "2 \<le> length TE"
    and "(min (getMaxY LE) (getMaxY TE) - max (getMinY LE) (getMinY TE)) / 1000 \<noteq> 0"
  shows "max (getMaxDist LE) (getMaxDist TE) = Max ((\<lambda>p. \<bar>py p\<bar>) ` (set LE \<union> set TE)) \<and>
         0 < max (getMaxDist LE) (getMaxDist TE)"
proof
  have ne: "LE \<noteq> []" "TE \<noteq> []" using assms(3,4) by auto
  show "max (getMaxDist LE) (getMaxDist TE) = Max ((\<lambda>p. \<bar>py p\<bar>) ` (set LE \<union> set TE))"
    by (rule maxDist_Max[OF ne])
  have "spanMax LE TE \<noteq> spanMin LE TE"
    using assms(5) by (simp add: spanMin_def spanMax_def)
  then show "0 < max (getMaxDist LE) (getMaxDist TE)"
    by (rule maxDist_positive[OF assms(3,4)])
qed

theorem maxDist_nonzero_witness:
  "max (getMaxDist rectLE) (getMaxDist rectTE) = Max ((\<lambda>p. \<bar>py p\<bar>) ` (set rectLE \<union> set rectTE)) \<and>
   0 < max (getMaxDist rectLE) (getMaxDist rectTE)"
  using maxDist_nonzero[of "[polyline rectLE]" axisLine "[polyline rectTE]"]
  by (simp add: axis_samples getMinY_def getMaxY_def fl_numeral fl_0)

subsection \<open>Integration, errors and scaling\<close>














section \<open>Properties of the tridiagonal solver and the spline fitter\<close>

lemma thomas_forward_step:
  "i < n \<Longrightarrow>
   thomas_forward a b c d n i (cp, dp) =
   thomas_forward a b c d n (Suc i)
     (if i < n - 1 then cp[i := c ! i / (b ! i - a ! i * cp ! (i - 1))] else cp,
      dp[i := (d ! i - a ! i * dp ! (i - 1)) / (b ! i - a ! i * cp ! (i - 1))])"
  by (subst thomas_forward.simps) (simp add: Let_def)

lemma thomas_forward_stop:
  "\<not> i < n \<Longrightarrow> thomas_forward a b c d n i (cp, dp) = (cp, dp)"
  by (subst thomas_forward.simps) simp

lemma thomas_forward_length:
  "length (fst (thomas_forward a b c d n i (cp, dp))) = length cp \<and>
   length (snd (thomas_forward a b c d n i (cp, dp))) = length dp"
proof (induction "n - i" arbitrary: i cp dp)
  case 0
  then have "\<not> i < n" by simp
  then show ?case by (simp add: thomas_forward_stop)
next
  case (Suc k)
  then have lt: "i < n" and k: "k = n - Suc i" by simp_all
  show ?case
    unfolding thomas_forward_step[OF lt]
    using Suc.hyps(1)[OF k] by (simp split: if_splits)
qed

lemma thomas_forward_prefix:
  "j < i \<Longrightarrow>
   fst (thomas_forward a b c d n i (cp, dp)) ! j = cp ! j \<and>
   snd (thomas_forward a b c d n i (cp, dp)) ! j = dp ! j"
proof (induction "n - i" arbitrary: i cp dp)
  case 0
  then have "\<not> i < n" by simp
  then show ?case by (simp add: thomas_forward_stop)
next
  case (Suc k)
  then have lt: "i < n" and k: "k = n - Suc i" by simp_all
  have ji: "j < Suc i" "j \<noteq> i" using Suc.prems by simp_all
  show ?case
    unfolding thomas_forward_step[OF lt]
    using Suc.hyps(1)[OF k ji(1)] ji(2) by (simp split: if_splits)
qed

lemma thomas_forward_rows:
  "1 \<le> i \<Longrightarrow> i \<le> j \<Longrightarrow> j < n \<Longrightarrow> length cp = n \<Longrightarrow> length dp = n \<Longrightarrow>
   snd (thomas_forward a b c d n i (cp, dp)) ! j =
     (d ! j - a ! j * snd (thomas_forward a b c d n i (cp, dp)) ! (j - 1)) /
     (b ! j - a ! j * fst (thomas_forward a b c d n i (cp, dp)) ! (j - 1)) \<and>
   (j < n - 1 \<longrightarrow>
    fst (thomas_forward a b c d n i (cp, dp)) ! j =
      c ! j / (b ! j - a ! j * fst (thomas_forward a b c d n i (cp, dp)) ! (j - 1)))"
proof (induction "n - i" arbitrary: i cp dp)
  case 0
  then show ?case by simp
next
  case (Suc k)
  then have lt: "i < n" and k: "k = n - Suc i" by simp_all
  define cP where "cP = (if i < n - 1 then cp[i := c ! i / (b ! i - a ! i * cp ! (i - 1))] else cp)"
  define dP where "dP = dp[i := (d ! i - a ! i * dp ! (i - 1)) / (b ! i - a ! i * cp ! (i - 1))]"
  have unf: "thomas_forward a b c d n i (cp, dp) = thomas_forward a b c d n (Suc i) (cP, dP)"
    unfolding cP_def dP_def by (rule thomas_forward_step[OF lt])
  have len: "length cP = n" "length dP = n"
    using Suc.prems by (simp_all add: cP_def dP_def)
  show ?case
  proof (cases "j = i")
    case True
    have p1: "fst (thomas_forward a b c d n (Suc i) (cP, dP)) ! i = cP ! i"
      "snd (thomas_forward a b c d n (Suc i) (cP, dP)) ! i = dP ! i"
      using thomas_forward_prefix[of i "Suc i" a b c d n cP dP] by simp_all
    have im: "i - 1 < Suc i" "i - 1 \<noteq> i" using Suc.prems(1) by simp_all
    have p2: "fst (thomas_forward a b c d n (Suc i) (cP, dP)) ! (i - 1) = cp ! (i - 1)"
      "snd (thomas_forward a b c d n (Suc i) (cP, dP)) ! (i - 1) = dp ! (i - 1)"
      using thomas_forward_prefix[OF im(1), of a b c d n cP dP] im(2)
      by (simp_all add: cP_def dP_def)
    have v: "dP ! i = (d ! i - a ! i * dp ! (i - 1)) / (b ! i - a ! i * cp ! (i - 1))"
      using Suc.prems lt by (simp add: dP_def)
    have w: "i < n - 1 \<longrightarrow> cP ! i = c ! i / (b ! i - a ! i * cp ! (i - 1))"
      using Suc.prems lt by (simp add: cP_def)
    show ?thesis
      unfolding unf True p1 p2 using v w by simp
  next
    case False
    then have ij: "Suc i \<le> j" using Suc.prems(2) by simp
    have one: "1 \<le> Suc i" by simp
    show ?thesis
      unfolding unf
      by (rule Suc.hyps(1)[OF k one ij Suc.prems(3) len])
  qed
qed

lemma thomas_back_length: "length (thomas_back cp dp k x) = length x"
  by (induction k arbitrary: x) simp_all

lemma thomas_back_suffix: "k \<le> j \<Longrightarrow> thomas_back cp dp k x ! j = x ! j"
  by (induction k arbitrary: x) simp_all

lemma thomas_back_rows:
  "j < k \<Longrightarrow> k < length x \<Longrightarrow>
   thomas_back cp dp k x ! j = dp ! j - cp ! j * thomas_back cp dp k x ! (j + 1)"
proof (induction k arbitrary: x)
  case 0
  then show ?case by simp
next
  case (Suc i)
  show ?case
  proof (cases "j = i")
    case True
    then show ?thesis using Suc.prems by (simp add: thomas_back_suffix)
  next
    case False
    then have "j < i" using Suc.prems(1) by simp
    then show ?thesis using Suc.IH[of "x[i := dp ! i - cp ! i * x ! (i + 1)]"] Suc.prems(2)
      by simp
  qed
qed

lemma thomasAlgorithm_solves:
  fixes a b c d :: "real list"
  defines "N \<equiv> length d"
  defines "st \<equiv> thomas_forward a b c d N 1
                  ((replicate N 0)[0 := c ! 0 / b ! 0], (replicate N 0)[0 := d ! 0 / b ! 0])"
  defines "x \<equiv> thomasAlgorithm a b c d"
  assumes N2: "2 \<le> N" and b0: "b ! 0 \<noteq> 0"
    and piv: "\<And>j. 1 \<le> j \<Longrightarrow> j < N \<Longrightarrow> b ! j - a ! j * fst st ! (j - 1) \<noteq> 0"
  shows "length x = N"
    and "b ! 0 * x ! 0 + c ! 0 * x ! 1 = d ! 0"
    and "\<And>j. 1 \<le> j \<Longrightarrow> j < N - 1 \<Longrightarrow>
           a ! j * x ! (j - 1) + b ! j * x ! j + c ! j * x ! (j + 1) = d ! j"
    and "a ! (N - 1) * x ! (N - 2) + b ! (N - 1) * x ! (N - 1) = d ! (N - 1)"
proof -
  define cp where "cp = fst st"
  define dp where "dp = snd st"
  have st: "st = (cp, dp)" by (simp add: cp_def dp_def)
  have x: "x = thomas_back cp dp (N - 1) ((replicate N 0)[N - 1 := dp ! (N - 1)])"
    unfolding x_def thomasAlgorithm_def Let_def N_def[symmetric] st_def[symmetric] st
    by simp
  show len: "length x = N" by (simp add: x thomas_back_length)
  have xlast: "x ! (N - 1) = dp ! (N - 1)"
    using N2 by (simp add: x thomas_back_suffix)
  have xrec: "x ! j = dp ! j - cp ! j * x ! (j + 1)" if "j < N - 1" for j
    unfolding x using that N2 by (intro thomas_back_rows) simp_all
  have c0: "cp ! 0 = c ! 0 / b ! 0" and d0: "dp ! 0 = d ! 0 / b ! 0"
    using thomas_forward_prefix[of 0 1 a b c d N "(replicate N 0)[0 := c ! 0 / b ! 0]"
        "(replicate N 0)[0 := d ! 0 / b ! 0]"] N2
    by (simp_all add: cp_def dp_def st_def)
  have rows: "dp ! j = (d ! j - a ! j * dp ! (j - 1)) / (b ! j - a ! j * cp ! (j - 1)) \<and>
              (j < N - 1 \<longrightarrow> cp ! j = c ! j / (b ! j - a ! j * cp ! (j - 1)))"
    if "1 \<le> j" "j < N" for j
    unfolding cp_def dp_def st_def
    by (rule thomas_forward_rows[OF _ that]) simp_all
  have pd: "(b ! j - a ! j * cp ! (j - 1)) * dp ! j = d ! j - a ! j * dp ! (j - 1)"
    if "1 \<le> j" "j < N" for j
    using rows[OF that] piv[OF that] by (simp add: cp_def)
  have pc: "(b ! j - a ! j * cp ! (j - 1)) * cp ! j = c ! j"
    if "1 \<le> j" "j < N - 1" for j
  proof -
    have "j < N" using that by simp
    from rows[OF that(1) this] piv[OF that(1) this] that(2) show ?thesis
      by (simp add: cp_def)
  qed
  show "b ! 0 * x ! 0 + c ! 0 * x ! 1 = d ! 0"
  proof -
    have "x ! 0 = dp ! 0 - cp ! 0 * x ! 1" using xrec[of 0] N2 by simp
    then have e: "x ! 0 = d ! 0 / b ! 0 - (c ! 0 / b ! 0) * x ! 1"
      by (simp only: c0 d0)
    have "b ! 0 * x ! 0 = b ! 0 * (d ! 0 / b ! 0) - b ! 0 * ((c ! 0 / b ! 0) * x ! 1)"
      by (simp only: e right_diff_distrib)
    moreover have "b ! 0 * (d ! 0 / b ! 0) = d ! 0" using b0 by simp
    moreover have "b ! 0 * ((c ! 0 / b ! 0) * x ! 1) = c ! 0 * x ! 1" using b0 by simp
    ultimately show ?thesis by simp
  qed
  show "a ! j * x ! (j - 1) + b ! j * x ! j + c ! j * x ! (j + 1) = d ! j"
    if "1 \<le> j" "j < N - 1" for j
  proof -
    have jN: "j < N" using that by simp
    have e: "x ! (j - 1) = dp ! (j - 1) - cp ! (j - 1) * x ! j"
      using xrec[of "j - 1"] that by simp
    have "a ! j * x ! (j - 1) + b ! j * x ! j =
               a ! j * dp ! (j - 1) + (b ! j - a ! j * cp ! (j - 1)) * x ! j"
      by (simp only: e) (simp add: algebra_simps)
    also have "\<dots> = a ! j * dp ! (j - 1) +
                     (b ! j - a ! j * cp ! (j - 1)) * (dp ! j - cp ! j * x ! (j + 1))"
      using xrec[OF that(2)] by simp
    also have "\<dots> = a ! j * dp ! (j - 1) + (b ! j - a ! j * cp ! (j - 1)) * dp ! j -
                     ((b ! j - a ! j * cp ! (j - 1)) * cp ! j) * x ! (j + 1)"
      by (simp only: right_diff_distrib mult.assoc add_diff_eq)
    also have "\<dots> = d ! j - c ! j * x ! (j + 1)"
      by (simp only: pd[OF that(1) jN] pc[OF that])
    finally show ?thesis by simp
  qed
  show "a ! (N - 1) * x ! (N - 2) + b ! (N - 1) * x ! (N - 1) = d ! (N - 1)"
  proof -
    have l: "1 \<le> N - 1" "N - 1 < N" "N - 1 - 1 = N - 2" using N2 by simp_all
    have s: "N - 2 + 1 = N - 1" "N - 2 < N - 1" using N2 by simp_all
    have e: "x ! (N - 2) = dp ! (N - 2) - cp ! (N - 2) * dp ! (N - 1)"
      using xrec[OF s(2)] by (simp only: s(1) xlast)
    have "a ! (N - 1) * x ! (N - 2) + b ! (N - 1) * x ! (N - 1) =
               a ! (N - 1) * dp ! (N - 2) +
               (b ! (N - 1) - a ! (N - 1) * cp ! (N - 2)) * dp ! (N - 1)"
      by (simp only: e xlast) (simp add: algebra_simps)
    also have "\<dots> = a ! (N - 1) * dp ! (N - 2) + (d ! (N - 1) - a ! (N - 1) * dp ! (N - 2))"
      using pd[OF l(1,2)] by (simp only: l(3))
    finally show ?thesis by simp
  qed
qed

lemma fold_update_length: "length (fold (\<lambda>i r. r[i := f i]) is r) = length r"
  by (induction "is" arbitrary: r) simp_all

lemma fold_update_nth:
  "fold (\<lambda>i r. r[i := f i]) [lo..<hi] r ! j =
     (if lo \<le> j \<and> j < hi \<and> j < length r then f j else r ! j)"
proof (induction hi)
  case 0
  then show ?case by simp
next
  case (Suc hi)
  let ?R = "fold (\<lambda>i r. r[i := f i]) [lo..<hi] r"
  have len: "length ?R = length r" by (rule fold_update_length)
  show ?case
  proof (cases "lo \<le> hi")
    case True
    then have e: "fold (\<lambda>i r. r[i := f i]) [lo..<Suc hi] r = ?R[hi := f hi]" by simp
    show ?thesis
    proof (cases "j = hi")
      case eq: True
      show ?thesis
      proof (cases "hi < length r")
        case True
        then show ?thesis unfolding e eq using \<open>lo \<le> hi\<close> len by simp
      next
        case False
        then have "length ?R \<le> hi" by (simp only: len not_less)
        then have "?R[hi := f hi] = ?R" by (rule list_update_beyond)
        then show ?thesis unfolding e eq using False Suc.IH[of ] eq by simp
      qed
    next
      case False
      then have "?R[hi := f hi] ! j = ?R ! j" by simp
      then show ?thesis unfolding e using Suc.IH False by (simp add: less_Suc_eq)
    qed
  next
    case False
    then show ?thesis by auto
  qed
qed

lemma fill_rhs_length: "length (fill_rhs coord pts) = length pts - 1 + 1"
  by (simp add: fill_rhs_def Let_def fold_update_length)

lemma fill_rhs_first:
  "2 \<le> length pts \<Longrightarrow> fill_rhs coord pts ! 0 = 3 * (coord (pts ! 1) - coord (pts ! 0))"
  by (simp add: fill_rhs_def Let_def fold_update_length fold_update_nth nth_list_update)

lemma fill_rhs_last:
  "2 \<le> length pts \<Longrightarrow>
   fill_rhs coord pts ! (length pts - 1) =
     3 * (coord (pts ! (length pts - 1)) - coord (pts ! (length pts - 1 - 1)))"
  by (simp add: fill_rhs_def Let_def fold_update_length)

lemma fill_rhs_interior:
  "1 \<le> j \<Longrightarrow> j < length pts - 1 \<Longrightarrow>
   fill_rhs coord pts ! j = 3 * (coord (pts ! (j + 1)) - coord (pts ! (j - 1)))"
  by (simp add: fill_rhs_def Let_def fold_update_length fold_update_nth nth_list_update)

lemma diag_length: "length (diag_a n) = n + 1" "length (diag_b n) = n + 1"
  "length (diag_c n) = n + 1"
  by (simp_all add: diag_a_def diag_b_def diag_c_def del: replicate.simps)

lemma diag_a_nth: "j \<le> n \<Longrightarrow> diag_a n ! j = 1"
  by (simp add: diag_a_def nth_list_update del: replicate.simps)

lemma diag_c_nth: "j \<le> n \<Longrightarrow> diag_c n ! j = 1"
  by (simp add: diag_c_def nth_list_update del: replicate.simps)

lemma diag_b_nth:
  "j \<le> n \<Longrightarrow> diag_b n ! j = (if j = 0 \<or> j = n then 2 else 4)"
  by (auto simp add: diag_b_def nth_list_update simp del: replicate.simps)

lemma spline_cPrime_bound:
  fixes d :: "real list" and n :: nat
  defines "st \<equiv> thomas_forward (diag_a n) (diag_b n) (diag_c n) d (n + 1) 1
                  ((replicate (n + 1) 0)[0 := diag_c n ! 0 / diag_b n ! 0],
                   (replicate (n + 1) 0)[0 := d ! 0 / diag_b n ! 0])"
  shows "j < n \<Longrightarrow> 0 < fst st ! j \<and> fst st ! j \<le> 1 / 2"
proof (induction j)
  case 0
  have "fst st ! 0 = diag_c n ! 0 / diag_b n ! 0"
    unfolding st_def
    using thomas_forward_prefix[of 0 1 "diag_a n" "diag_b n" "diag_c n" d "n + 1"]
    by simp
  then show ?case by (simp add: diag_b_nth diag_c_nth)
next
  case (Suc j)
  then have IH: "0 < fst st ! j" "fst st ! j \<le> 1 / 2" by simp_all
  have "fst st ! Suc j =
        diag_c n ! Suc j / (diag_b n ! Suc j - diag_a n ! Suc j * fst st ! (Suc j - 1))"
    unfolding st_def
    using thomas_forward_rows[of 1 "Suc j" "n + 1" _ _ "diag_a n" "diag_b n" "diag_c n" d]
      Suc.prems
    by simp
  then have e: "fst st ! Suc j = 1 / (4 - fst st ! j)"
    using Suc.prems by (simp add: diag_a_nth diag_b_nth diag_c_nth)
  have pos: "0 < 4 - fst st ! j" using IH by linarith
  have "1 / (4 - fst st ! j) \<le> 1 / 2"
    using IH pos by (simp add: field_simps)
  moreover have "0 < 1 / (4 - fst st ! j)" using pos by simp
  ultimately show ?case by (simp only: e) 
qed

lemma tangents_system:
  fixes pts :: "point list" and coord :: "point \<Rightarrow> real"
  defines "n \<equiv> length pts - 1"
  defines "D \<equiv> tangents coord pts"
  assumes len: "2 \<le> length pts"
  shows "length D = n + 1"
    and "2 * D ! 0 + D ! 1 = 3 * (coord (pts ! 1) - coord (pts ! 0))"
    and "\<And>i. 1 \<le> i \<Longrightarrow> i \<le> n - 1 \<Longrightarrow>
           D ! (i - 1) + 4 * D ! i + D ! (i + 1) =
           3 * (coord (pts ! (i + 1)) - coord (pts ! (i - 1)))"
    and "2 * D ! n + D ! (n - 1) = 3 * (coord (pts ! n) - coord (pts ! (n - 1)))"
proof -
  let ?a = "diag_a n" and ?b = "diag_b n" and ?c = "diag_c n" and ?d = "fill_rhs coord pts"
  have n1: "1 \<le> n" using len by (simp add: n_def)
  have ld: "length ?d = n + 1" by (simp add: fill_rhs_length n_def)
  have D: "D = thomasAlgorithm ?a ?b ?c ?d"
    by (simp add: D_def tangents_def Let_def n_def)
  have N2: "2 \<le> length ?d" using n1 ld by simp
  have b0: "?b ! 0 \<noteq> 0" by (simp add: diag_b_nth)
  have piv: "?b ! j - ?a ! j *
               fst (thomas_forward ?a ?b ?c ?d (length ?d) 1
                      ((replicate (length ?d) 0)[0 := ?c ! 0 / ?b ! 0],
                       (replicate (length ?d) 0)[0 := ?d ! 0 / ?b ! 0])) ! (j - 1) \<noteq> 0"
    if "1 \<le> j" "j < length ?d" for j
  proof -
    have j: "j - 1 < n" "j \<le> n" using that ld by simp_all
    from spline_cPrime_bound[OF j(1), of ?d]
    have "fst (thomas_forward ?a ?b ?c ?d (length ?d) 1
                      ((replicate (length ?d) 0)[0 := ?c ! 0 / ?b ! 0],
                       (replicate (length ?d) 0)[0 := ?d ! 0 / ?b ! 0])) ! (j - 1) \<le> 1 / 2"
      by (simp only: ld)
    moreover have "2 \<le> ?b ! j" using j(2) by (simp add: diag_b_nth)
    moreover have "?a ! j = 1" using j(2) by (simp add: diag_a_nth)
    ultimately show ?thesis by simp
  qed
  have sol1: "length D = length ?d"
    unfolding D by (rule thomasAlgorithm_solves(1)[OF N2 b0]) (rule piv)
  have sol2: "?b ! 0 * D ! 0 + ?c ! 0 * D ! 1 = ?d ! 0"
    unfolding D by (rule thomasAlgorithm_solves(2)[OF N2 b0]) (rule piv)
  have sol3: "?a ! j * D ! (j - 1) + ?b ! j * D ! j + ?c ! j * D ! (j + 1) = ?d ! j"
    if "1 \<le> j" "j < length ?d - 1" for j
    unfolding D by (rule thomasAlgorithm_solves(3)[OF N2 b0 _ that]) (rule piv)
  have sol4: "?a ! (length ?d - 1) * D ! (length ?d - 2) +
              ?b ! (length ?d - 1) * D ! (length ?d - 1) = ?d ! (length ?d - 1)"
    unfolding D by (rule thomasAlgorithm_solves(4)[OF N2 b0]) (rule piv)
  show "length D = n + 1" using sol1 ld by simp
  show "2 * D ! 0 + D ! 1 = 3 * (coord (pts ! 1) - coord (pts ! 0))"
    using sol2 n1 len by (simp add: diag_b_nth diag_c_nth fill_rhs_first)
  show "D ! (i - 1) + 4 * D ! i + D ! (i + 1) =
        3 * (coord (pts ! (i + 1)) - coord (pts ! (i - 1)))"
    if "1 \<le> i" "i \<le> n - 1" for i
  proof -
    have i: "i < length ?d - 1" "i \<le> n" "i \<noteq> 0" "i \<noteq> n" "i < length pts - 1"
      using that n1 ld by (simp_all add: n_def)
    from sol3[OF that(1) i(1)] show ?thesis
      using i by (simp add: diag_a_nth diag_b_nth diag_c_nth fill_rhs_interior)
  qed
  show "2 * D ! n + D ! (n - 1) = 3 * (coord (pts ! n) - coord (pts ! (n - 1)))"
  proof -
    have e: "length ?d - 2 = n - 1" "length ?d - 1 = n" using n1 ld by simp_all
    have r: "?d ! n = 3 * (coord (pts ! n) - coord (pts ! (n - 1)))"
      unfolding n_def by (rule fill_rhs_last[OF len])
    from sol4 show ?thesis
      unfolding e r using n1 by (simp add: diag_a_nth diag_b_nth)
  qed
qed

lemma solve_length: "2 \<le> length pts \<Longrightarrow> length (solve pts) = length pts - 1"
  by (simp add: solve_def Let_def)

lemma solve_nth:
  "2 \<le> length pts \<Longrightarrow> i < length pts - 1 \<Longrightarrow>
   solve pts ! i =
     \<lparr>p1 = pts ! i,
      cp1 = \<lparr>px = px (pts ! i) + tangents px pts ! i / 3,
             py = py (pts ! i) + tangents py pts ! i / 3\<rparr>,
      cp2 = \<lparr>px = px (pts ! (i + 1)) - tangents px pts ! (i + 1) / 3,
             py = py (pts ! (i + 1)) - tangents py pts ! (i + 1) / 3\<rparr>,
      p2 = pts ! (i + 1)\<rparr>"
  by (simp add: solve_def Let_def)

lemma bezier_ends: "getBezierPoint seg 0 = p1 seg" "getBezierPoint seg 1 = p2 seg"
  by (simp_all add: getBezierPoint_def)

lemma bezier_deriv:
  fixes coord :: "point \<Rightarrow> real"
  assumes "coord = px \<or> coord = py"
  shows "((\<lambda>t. coord (getBezierPoint seg t)) has_real_derivative
           3 * (coord (cp1 seg) - coord (p1 seg))) (at 0)"
    and "((\<lambda>t. coord (getBezierPoint seg t)) has_real_derivative
           3 * (coord (p2 seg) - coord (cp2 seg))) (at 1)"
  using assms
  by (auto simp: getBezierPoint_def Let_def intro!: derivative_eq_intros)

text \<open>
  C5. For knots \<open>P_0 \<dots> P_n\<close> with \<open>n \<ge> 1\<close>, the bezier pieces of the spline are those of
  \<^verbatim>\<open>solve\<close>, and the tangent values \<open>D_0 \<dots> D_n\<close> of each axis that \<^verbatim>\<open>solve\<close> gets
  from the tridiagonal solver satisfy the endpoint rows
  \<open>2 D_0 + D_1 = 3 (P_1 - P_0)\<close> and \<open>2 D_n + D_{n-1} = 3 (P_n - P_{n-1})\<close> and the
  interior rows \<open>D_{i-1} + 4 D_i + D_{i+1} = 3 (P_{i+1} - P_{i-1})\<close> for
  \<open>1 \<le> i \<le> n - 1\<close>; the control points of piece \<open>i\<close> are \<open>cp1 = P_i + D_i / 3\<close> and
  \<open>cp2 = P_{i+1} - D_{i+1} / 3\<close>.
\<close>

theorem spline_tangent_system:
  fixes pts :: "point list"
  defines "n \<equiv> length pts - 1"
  defines "Dx \<equiv> tangents px pts" and "Dy \<equiv> tangents py pts"
  assumes "2 \<le> length pts"
  shows "bezierPoints (CubicSpline pts) = Some (solve pts) \<and>
         length Dx = n + 1 \<and> length Dy = n + 1 \<and>
         2 * Dx ! 0 + Dx ! 1 = 3 * (px (pts ! 1) - px (pts ! 0)) \<and>
         2 * Dy ! 0 + Dy ! 1 = 3 * (py (pts ! 1) - py (pts ! 0)) \<and>
         2 * Dx ! n + Dx ! (n - 1) = 3 * (px (pts ! n) - px (pts ! (n - 1))) \<and>
         2 * Dy ! n + Dy ! (n - 1) = 3 * (py (pts ! n) - py (pts ! (n - 1))) \<and>
         (\<forall>i. 1 \<le> i \<and> i \<le> n - 1 \<longrightarrow>
            Dx ! (i - 1) + 4 * Dx ! i + Dx ! (i + 1) =
              3 * (px (pts ! (i + 1)) - px (pts ! (i - 1))) \<and>
            Dy ! (i - 1) + 4 * Dy ! i + Dy ! (i + 1) =
              3 * (py (pts ! (i + 1)) - py (pts ! (i - 1)))) \<and>
         (\<forall>i<n. cp1 (solve pts ! i) =
                   \<lparr>px = px (pts ! i) + Dx ! i / 3, py = py (pts ! i) + Dy ! i / 3\<rparr> \<and>
                 cp2 (solve pts ! i) =
                   \<lparr>px = px (pts ! (i + 1)) - Dx ! (i + 1) / 3,
                    py = py (pts ! (i + 1)) - Dy ! (i + 1) / 3\<rparr>)"
proof -
  have a: "bezierPoints (CubicSpline pts) = Some (solve pts)"
    using assms(4) by (simp add: CubicSpline_def)
  have b: "\<forall>i<n. cp1 (solve pts ! i) =
                   \<lparr>px = px (pts ! i) + Dx ! i / 3, py = py (pts ! i) + Dy ! i / 3\<rparr> \<and>
                 cp2 (solve pts ! i) =
                   \<lparr>px = px (pts ! (i + 1)) - Dx ! (i + 1) / 3,
                    py = py (pts ! (i + 1)) - Dy ! (i + 1) / 3\<rparr>"
    using assms(4) by (simp add: solve_nth n_def Dx_def Dy_def)
  note x = tangents_system[OF assms(4), where coord = px, folded n_def Dx_def]
  note y = tangents_system[OF assms(4), where coord = py, folded n_def Dy_def]
  from a b x y show ?thesis by simp
qed

theorem spline_tangent_system_witness:
  "2 * tangents px knots3 ! 0 + tangents px knots3 ! 1 = 3 \<and>
   tangents px knots3 ! 0 + 4 * tangents px knots3 ! 1 + tangents px knots3 ! 2 = 6 \<and>
   2 * tangents px knots3 ! 2 + tangents px knots3 ! 1 = 3 \<and>
   tangents py knots3 ! 0 + 4 * tangents py knots3 ! 1 + tangents py knots3 ! 2 = 0 \<and>
   cp1 (solve knots3 ! 1) =
     \<lparr>px = 1 + tangents px knots3 ! 1 / 3, py = 1 + tangents py knots3 ! 1 / 3\<rparr>"
proof -
  have l: "2 \<le> length knots3" by simp
  note s = spline_tangent_system[OF l]
  from s have i: "tangents px knots3 ! (1 - 1) + 4 * tangents px knots3 ! 1 +
      tangents px knots3 ! (1 + 1) = 3 * (px (knots3 ! (1 + 1)) - px (knots3 ! (1 - 1)))"
    "tangents py knots3 ! (1 - 1) + 4 * tangents py knots3 ! 1 +
      tangents py knots3 ! (1 + 1) = 3 * (py (knots3 ! (1 + 1)) - py (knots3 ! (1 - 1)))"
    by simp_all
  from s have c: "cp1 (solve knots3 ! 1) =
     \<lparr>px = px (knots3 ! 1) + tangents px knots3 ! 1 / 3,
      py = py (knots3 ! 1) + tangents py knots3 ! 1 / 3\<rparr>"
    by simp
  from s have e: "2 * tangents px knots3 ! 0 + tangents px knots3 ! 1 =
        3 * (px (knots3 ! 1) - px (knots3 ! 0))"
    "2 * tangents px knots3 ! (length knots3 - 1) + tangents px knots3 ! (length knots3 - 1 - 1) =
        3 * (px (knots3 ! (length knots3 - 1)) - px (knots3 ! (length knots3 - 1 - 1)))"
    by blast+
  from i c e show ?thesis by (simp add: numeral_2_eq_2)
qed

text \<open>
  C6. For at least two knots the fitted spline has one piece per pair of neighbouring
  knots, piece \<open>i\<close> starts at knot \<open>i\<close> and ends at knot \<open>i + 1\<close> (as its fields \<open>p1\<close>
  and \<open>p2\<close>, and as the curve's values at \<open>t = 0\<close> and \<open>t = 1\<close>), and the derivative of
  piece \<open>i\<close> at \<open>t = 1\<close> is the derivative of piece \<open>i + 1\<close> at \<open>t = 0\<close>, in both
  coordinates.
\<close>

theorem spline_interpolates:
  assumes "2 \<le> length pts"
  shows "bezierPoints (CubicSpline pts) = Some (solve pts) \<and>
         length (solve pts) = length pts - 1 \<and>
         (\<forall>i<length pts - 1.
            p1 (solve pts ! i) = pts ! i \<and> p2 (solve pts ! i) = pts ! (i + 1) \<and>
            getBezierPoint (solve pts ! i) 0 = pts ! i \<and>
            getBezierPoint (solve pts ! i) 1 = pts ! (i + 1)) \<and>
         (\<forall>i. i + 2 < length pts \<longrightarrow>
            (\<exists>vx vy.
               ((\<lambda>t. px (getBezierPoint (solve pts ! i) t)) has_real_derivative vx) (at 1) \<and>
               ((\<lambda>t. px (getBezierPoint (solve pts ! (i + 1)) t)) has_real_derivative vx) (at 0) \<and>
               ((\<lambda>t. py (getBezierPoint (solve pts ! i) t)) has_real_derivative vy) (at 1) \<and>
               ((\<lambda>t. py (getBezierPoint (solve pts ! (i + 1)) t)) has_real_derivative vy) (at 0)))"
proof (intro conjI allI impI)
  show "bezierPoints (CubicSpline pts) = Some (solve pts)"
    using assms by (simp add: CubicSpline_def)
  show "length (solve pts) = length pts - 1" by (rule solve_length[OF assms])
next
  fix i assume "i < length pts - 1"
  then show "p1 (solve pts ! i) = pts ! i" "p2 (solve pts ! i) = pts ! (i + 1)"
    "getBezierPoint (solve pts ! i) 0 = pts ! i"
    "getBezierPoint (solve pts ! i) 1 = pts ! (i + 1)"
    using assms by (simp_all add: bezier_ends solve_nth)
next
  fix i assume i: "i + 2 < length pts"
  then have i1: "i < length pts - 1" "i + 1 < length pts - 1" by simp_all
  let ?A = "solve pts ! i" and ?B = "solve pts ! (i + 1)"
  have ex: "3 * (px (p2 ?A) - px (cp2 ?A)) = 3 * (px (cp1 ?B) - px (p1 ?B))"
    unfolding solve_nth[OF assms i1(1)] solve_nth[OF assms i1(2)] by simp
  have ey: "3 * (py (p2 ?A) - py (cp2 ?A)) = 3 * (py (cp1 ?B) - py (p1 ?B))"
    unfolding solve_nth[OF assms i1(1)] solve_nth[OF assms i1(2)] by simp
  have "((\<lambda>t. px (getBezierPoint ?A t)) has_real_derivative 3 * (px (p2 ?A) - px (cp2 ?A))) (at 1)"
    by (rule bezier_deriv(2)) simp
  moreover have "((\<lambda>t. px (getBezierPoint ?B t)) has_real_derivative
                   3 * (px (p2 ?A) - px (cp2 ?A))) (at 0)"
    unfolding ex by (rule bezier_deriv(1)) simp
  moreover have "((\<lambda>t. py (getBezierPoint ?A t)) has_real_derivative
                   3 * (py (p2 ?A) - py (cp2 ?A))) (at 1)"
    by (rule bezier_deriv(2)) simp
  moreover have "((\<lambda>t. py (getBezierPoint ?B t)) has_real_derivative
                   3 * (py (p2 ?A) - py (cp2 ?A))) (at 0)"
    unfolding ey by (rule bezier_deriv(1)) simp
  ultimately show "\<exists>vx vy.
      ((\<lambda>t. px (getBezierPoint ?A t)) has_real_derivative vx) (at 1) \<and>
      ((\<lambda>t. px (getBezierPoint ?B t)) has_real_derivative vx) (at 0) \<and>
      ((\<lambda>t. py (getBezierPoint ?A t)) has_real_derivative vy) (at 1) \<and>
      ((\<lambda>t. py (getBezierPoint ?B t)) has_real_derivative vy) (at 0)"
    by blast
qed

theorem spline_interpolates_witness:
  "length (solve knots3) = 2 \<and>
   p1 (solve knots3 ! 0) = \<lparr>px = 0, py = 0\<rparr> \<and> p2 (solve knots3 ! 0) = \<lparr>px = 1, py = 1\<rparr> \<and>
   p1 (solve knots3 ! 1) = \<lparr>px = 1, py = 1\<rparr> \<and> p2 (solve knots3 ! 1) = \<lparr>px = 2, py = 0\<rparr> \<and>
   (\<exists>vx vy.
      ((\<lambda>t. px (getBezierPoint (solve knots3 ! 0) t)) has_real_derivative vx) (at 1) \<and>
      ((\<lambda>t. px (getBezierPoint (solve knots3 ! 1) t)) has_real_derivative vx) (at 0) \<and>
      ((\<lambda>t. py (getBezierPoint (solve knots3 ! 0) t)) has_real_derivative vy) (at 1) \<and>
      ((\<lambda>t. py (getBezierPoint (solve knots3 ! 1) t)) has_real_derivative vy) (at 0))"
proof -
  have l: "2 \<le> length knots3" by simp
  note s = spline_interpolates[OF l]
  from s have a: "length (solve knots3) = 2" by simp
  from s have b: "\<forall>i<2. p1 (solve knots3 ! i) = knots3 ! i \<and>
      p2 (solve knots3 ! i) = knots3 ! (i + 1)" by simp
  from b have b0: "p1 (solve knots3 ! 0) = knots3 ! 0 \<and> p2 (solve knots3 ! 0) = knots3 ! (0 + 1)"
    by (rule allE[of _ 0]) simp
  from b have b1: "p1 (solve knots3 ! 1) = knots3 ! 1 \<and> p2 (solve knots3 ! 1) = knots3 ! (1 + 1)"
    by (rule allE[of _ 1]) simp
  from s have c: "0 + 2 < length knots3 \<longrightarrow> (\<exists>vx vy.
      ((\<lambda>t. px (getBezierPoint (solve knots3 ! 0) t)) has_real_derivative vx) (at 1) \<and>
      ((\<lambda>t. px (getBezierPoint (solve knots3 ! (0 + 1)) t)) has_real_derivative vx) (at 0) \<and>
      ((\<lambda>t. py (getBezierPoint (solve knots3 ! 0) t)) has_real_derivative vy) (at 1) \<and>
      ((\<lambda>t. py (getBezierPoint (solve knots3 ! (0 + 1)) t)) has_real_derivative vy) (at 0))"
    by blast
  from a b0 b1 c show ?thesis by simp
qed

section \<open>Properties of the coordinate transform\<close>

text \<open>
  The rounding error of a product with a rounded cosine or sine, of one rotation, and
  of the forward transform followed by the inverse one.
\<close>

lemma abs_mul_le: "\<bar>a\<bar> \<le> 1 \<Longrightarrow> \<bar>p * a\<bar> \<le> \<bar>p :: real\<bar>"
proof -
  assume "\<bar>a\<bar> \<le> 1"
  then have "\<bar>p\<bar> * \<bar>a\<bar> \<le> \<bar>p\<bar> * 1" by (rule mult_left_mono) simp
  then show ?thesis by (simp add: abs_mult)
qed

lemma fl_mul_error:
  assumes "\<bar>ah - a\<bar> \<le> 1 / 2 ^ 53" "\<bar>a\<bar> \<le> 1"
  shows "\<bar>fl_mul p ah - p * a\<bar> \<le> 3 * \<bar>p\<bar> / 2 ^ 53"
proof -
  define P where "P = \<bar>p\<bar>"
  have P0: "0 \<le> P" by (simp add: P_def)
  have ah: "\<bar>ah\<bar> \<le> 1 + 1 / 2 ^ 53" using assms by argo
  have "\<bar>p\<bar> * \<bar>ah\<bar> \<le> \<bar>p\<bar> * (1 + 1 / 2 ^ 53)"
    by (rule mult_left_mono[OF ah]) simp
  then have 1: "\<bar>p * ah\<bar> \<le> P * (1 + 1 / 2 ^ 53)" by (simp add: abs_mult P_def)
  have "\<bar>p\<bar> * \<bar>ah - a\<bar> \<le> \<bar>p\<bar> * (1 / 2 ^ 53)"
    by (rule mult_left_mono[OF assms(1)]) simp
  moreover have "p * ah - p * a = p * (ah - a)" by (simp add: algebra_simps)
  ultimately have 2: "\<bar>p * ah - p * a\<bar> \<le> P * (1 / 2 ^ 53)" by (simp add: abs_mult P_def)
  have 3: "\<bar>fl (p * ah) - p * ah\<bar> \<le> \<bar>p * ah\<bar> / 2 ^ 53" by (rule fl_error)
  have "\<bar>fl (p * ah) - p * a\<bar> \<le> \<bar>fl (p * ah) - p * ah\<bar> + \<bar>p * ah - p * a\<bar>" by argo
  also have "\<dots> \<le> P * (1 + 1 / 2 ^ 53) / 2 ^ 53 + P * (1 / 2 ^ 53)"
    using 1 2 3 by (simp add: divide_right_mono add_mono order_trans)
  also have "\<dots> \<le> 3 * P / 2 ^ 53" using P0 by simp
  finally show ?thesis by (simp add: fl_mul_def P_def)
qed

lemma rot_error:
  assumes a: "\<bar>ah - a\<bar> \<le> 1 / 2 ^ 53" "\<bar>a\<bar> \<le> 1"
    and b: "\<bar>bh - b\<bar> \<le> 1 / 2 ^ 53" "\<bar>b\<bar> \<le> 1"
  shows "\<bar>fl_add (fl_mul p ah) (fl_mul q bh) - (p * a + q * b)\<bar> \<le> 5 * (\<bar>p\<bar> + \<bar>q\<bar>) / 2 ^ 53"
    and "\<bar>fl_sub (fl_mul p ah) (fl_mul q bh) - (p * a - q * b)\<bar> \<le> 5 * (\<bar>p\<bar> + \<bar>q\<bar>) / 2 ^ 53"
proof -
  have u: "(2::real) ^ 53 = 9007199254740992" by simp
  define A where "A = fl_mul p ah"
  define B where "B = fl_mul q bh"
  define W where "W = \<bar>p\<bar> + \<bar>q\<bar>"
  have W0: "0 \<le> W" by (simp add: W_def)
  have EA: "\<bar>A - p * a\<bar> \<le> 3 * \<bar>p\<bar> / 2 ^ 53" unfolding A_def by (rule fl_mul_error[OF a])
  have EB: "\<bar>B - q * b\<bar> \<le> 3 * \<bar>q\<bar> / 2 ^ 53" unfolding B_def by (rule fl_mul_error[OF b])
  have pa: "\<bar>p * a\<bar> \<le> \<bar>p\<bar>" by (rule abs_mul_le[OF a(2)])
  have qb: "\<bar>q * b\<bar> \<le> \<bar>q\<bar>" by (rule abs_mul_le[OF b(2)])
  have sA: "\<bar>A\<bar> \<le> \<bar>p\<bar> + 3 * \<bar>p\<bar> / 2 ^ 53" using EA pa by argo
  have sB: "\<bar>B\<bar> \<le> \<bar>q\<bar> + 3 * \<bar>q\<bar> / 2 ^ 53" using EB qb by argo
  have S1: "\<bar>A + B\<bar> \<le> W + 3 * W / 2 ^ 53"
    using sA sB unfolding W_def by argo
  have S2: "\<bar>A - B\<bar> \<le> W + 3 * W / 2 ^ 53"
    using sA sB unfolding W_def by argo
  have E1: "\<bar>(A + B) - (p * a + q * b)\<bar> \<le> 3 * W / 2 ^ 53"
    using EA EB unfolding W_def by argo
  have E2: "\<bar>(A - B) - (p * a - q * b)\<bar> \<le> 3 * W / 2 ^ 53"
    using EA EB unfolding W_def by argo
  have F1: "\<bar>fl (A + B) - (A + B)\<bar> \<le> \<bar>A + B\<bar> / 2 ^ 53"
    by (rule fl_error)
  have F2: "\<bar>fl (A - B) - (A - B)\<bar> \<le> \<bar>A - B\<bar> / 2 ^ 53"
    by (rule fl_error)
  have G: "(W + 3 * W / 2 ^ 53) / 2 ^ 53 + 3 * W / 2 ^ 53 \<le> 5 * W / 2 ^ 53"
    using W0 by simp
  have "\<bar>fl (A + B) - (p * a + q * b)\<bar> \<le> \<bar>A + B\<bar> / 2 ^ 53 + 3 * W / 2 ^ 53"
    using F1 E1 by argo
  also have "\<dots> \<le> (W + 3 * W / 2 ^ 53) / 2 ^ 53 + 3 * W / 2 ^ 53"
    using S1 by (simp add: divide_right_mono)
  finally show "\<bar>fl_add (fl_mul p ah) (fl_mul q bh) - (p * a + q * b)\<bar> \<le> 5 * (\<bar>p\<bar> + \<bar>q\<bar>) / 2 ^ 53"
    using G unfolding fl_add_def A_def B_def W_def by argo
  have "\<bar>fl (A - B) - (p * a - q * b)\<bar> \<le> \<bar>A - B\<bar> / 2 ^ 53 + 3 * W / 2 ^ 53"
    using F2 E2 by argo
  also have "\<dots> \<le> (W + 3 * W / 2 ^ 53) / 2 ^ 53 + 3 * W / 2 ^ 53"
    using S2 by (simp add: divide_right_mono)
  finally show "\<bar>fl_sub (fl_mul p ah) (fl_mul q bh) - (p * a - q * b)\<bar> \<le> 5 * (\<bar>p\<bar> + \<bar>q\<bar>) / 2 ^ 53"
    using G unfolding fl_sub_def A_def B_def W_def by argo
qed

lemma Math_cos_error: "\<bar>Math_cos a - cos a\<bar> \<le> 1 / 2 ^ 53"
proof -
  have "\<bar>fl (cos a) - cos a\<bar> \<le> \<bar>cos a\<bar> / 2 ^ 53" by (rule fl_error)
  also have "\<dots> \<le> 1 / 2 ^ 53" by (simp add: divide_right_mono)
  finally show ?thesis by (simp add: Math_cos_def)
qed

lemma Math_sin_error: "\<bar>Math_sin a - sin a\<bar> \<le> 1 / 2 ^ 53"
proof -
  have "\<bar>fl (sin a) - sin a\<bar> \<le> \<bar>sin a\<bar> / 2 ^ 53" by (rule fl_error)
  also have "\<dots> \<le> 1 / 2 ^ 53" by (simp add: divide_right_mono)
  finally show ?thesis by (simp add: Math_sin_def)
qed

lemma fl_sub_error: "\<bar>fl_sub a b - (a - b)\<bar> \<le> \<bar>a - b\<bar> / 2 ^ 53"
  unfolding fl_sub_def by (rule fl_error)

lemma fl_add_error: "\<bar>fl_add a b - (a + b)\<bar> \<le> \<bar>a + b\<bar> / 2 ^ 53"
  unfolding fl_add_def by (rule fl_error)

lemma round_trip_error:
  fixes a x y ox oy :: real
  defines "tx \<equiv> fl_sub x ox" and "ty \<equiv> fl_sub y oy"
  defines "rx \<equiv> fl_sub (fl_mul tx (Math_cos (- a))) (fl_mul ty (Math_sin (- a)))"
    and "ry \<equiv> fl_add (fl_mul tx (Math_sin (- a))) (fl_mul ty (Math_cos (- a)))"
  defines "D \<equiv> \<bar>x - ox\<bar> + \<bar>y - oy\<bar>"
  shows "\<bar>fl_add (fl_sub (fl_mul rx (Math_cos a)) (fl_mul ry (Math_sin a))) ox - x\<bar>
           \<le> (25 * D + \<bar>ox\<bar>) / 2 ^ 53"
    and "\<bar>fl_add (fl_add (fl_mul rx (Math_sin a)) (fl_mul ry (Math_cos a))) oy - y\<bar>
           \<le> (25 * D + \<bar>oy\<bar>) / 2 ^ 53"
proof -
  define c where "c = cos a"
  define s where "s = sin a"
  have unit: "c * c + s * s = 1" unfolding c_def s_def by (rule sin_cos_squared_add3)
  have c1: "\<bar>c\<bar> \<le> 1" and s1: "\<bar>s\<bar> \<le> 1" and ms1: "\<bar>- s\<bar> \<le> 1"
    by (simp_all add: c_def s_def)
  have ec: "\<bar>Math_cos a - c\<bar> \<le> 1 / 2 ^ 53" unfolding c_def by (rule Math_cos_error)
  have es: "\<bar>Math_sin a - s\<bar> \<le> 1 / 2 ^ 53" unfolding s_def by (rule Math_sin_error)
  have ecm: "\<bar>Math_cos (- a) - c\<bar> \<le> 1 / 2 ^ 53"
    unfolding c_def using Math_cos_error[of "- a"] by simp
  have esm: "\<bar>Math_sin (- a) - (- s)\<bar> \<le> 1 / 2 ^ 53"
    unfolding s_def using Math_sin_error[of "- a"] by simp
  define T where "T = \<bar>tx\<bar> + \<bar>ty\<bar>"
  have D0: "0 \<le> D" by (simp add: D_def)
  have etx: "\<bar>tx - (x - ox)\<bar> \<le> \<bar>x - ox\<bar> / 2 ^ 53" unfolding tx_def by (rule fl_sub_error)
  have ety: "\<bar>ty - (y - oy)\<bar> \<le> \<bar>y - oy\<bar> / 2 ^ 53" unfolding ty_def by (rule fl_sub_error)
  have TD: "T \<le> D + D / 2 ^ 53" using etx ety unfolding T_def D_def by argo
  define ux where "ux = tx * c + ty * s"
  define uy where "uy = ty * c - tx * s"
  have erx: "\<bar>rx - ux\<bar> \<le> 5 * T / 2 ^ 53"
    using rot_error(2)[OF ecm c1 esm ms1, of tx ty]
    by (simp add: rx_def ux_def T_def)
  have ery: "\<bar>ry - uy\<bar> \<le> 5 * T / 2 ^ 53"
    using rot_error(1)[OF esm ms1 ecm c1, of tx ty]
    by (simp add: ry_def uy_def T_def)
  have b1: "\<bar>tx * c\<bar> \<le> \<bar>tx\<bar>" "\<bar>ty * s\<bar> \<le> \<bar>ty\<bar>" "\<bar>ty * c\<bar> \<le> \<bar>ty\<bar>" "\<bar>tx * s\<bar> \<le> \<bar>tx\<bar>"
    by (rule abs_mul_le[OF c1] abs_mul_le[OF s1])+
  have ux: "\<bar>ux\<bar> \<le> T" using b1 unfolding ux_def T_def by argo
  have uy: "\<bar>uy\<bar> \<le> T" using b1 unfolding uy_def T_def by argo
  define W where "W = \<bar>rx\<bar> + \<bar>ry\<bar>"
  have W: "W \<le> 2 * T + 10 * T / 2 ^ 53" using erx ery ux uy unfolding W_def by argo
  have inv: "ux * c - uy * s = tx" "ux * s + uy * c = ty"
  proof -
    have "ux * c - uy * s = tx * (c * c + s * s)" by (simp add: ux_def uy_def algebra_simps)
    then show "ux * c - uy * s = tx" by (simp add: unit)
    have "ux * s + uy * c = ty * (c * c + s * s)" by (simp add: ux_def uy_def algebra_simps)
    then show "ux * s + uy * c = ty" by (simp add: unit)
  qed
  have b2: "\<bar>(rx - ux) * c\<bar> \<le> \<bar>rx - ux\<bar>" "\<bar>(ry - uy) * s\<bar> \<le> \<bar>ry - uy\<bar>"
    "\<bar>(rx - ux) * s\<bar> \<le> \<bar>rx - ux\<bar>" "\<bar>(ry - uy) * c\<bar> \<le> \<bar>ry - uy\<bar>"
    by (rule abs_mul_le[OF c1] abs_mul_le[OF s1])+
  have T0: "0 \<le> T" by (simp add: T_def)
  define X where "X = fl_sub (fl_mul rx (Math_cos a)) (fl_mul ry (Math_sin a))"
  have eX: "\<bar>X - (rx * c - ry * s)\<bar> \<le> 5 * W / 2 ^ 53"
    using rot_error(2)[OF ec c1 es s1, of rx ry] by (simp add: X_def W_def)
  have "rx * c - ry * s - tx = (rx - ux) * c - (ry - uy) * s"
    using inv(1) by (simp add: algebra_simps)
  then have dX: "\<bar>rx * c - ry * s - tx\<bar> \<le> 10 * T / 2 ^ 53"
    using b2(1,2) erx ery by argo
  have u: "(2::real) ^ 53 = 9007199254740992" by simp
  have n: "5 * W / 2 ^ 53 + 10 * T / 2 ^ 53 \<le> 21 * T / 2 ^ 53" using W T0 unfolding u by argo
  have "\<bar>X - tx\<bar> \<le> \<bar>X - (rx * c - ry * s)\<bar> + \<bar>rx * c - ry * s - tx\<bar>" by argo
  then have X1: "\<bar>X - tx\<bar> \<le> 21 * T / 2 ^ 53" using eX dX n by argo
  have X2: "\<bar>X - (x - ox)\<bar> \<le> 23 * D / 2 ^ 53" using X1 etx TD D0 unfolding D_def u by argo
  have X3: "\<bar>fl_add X ox - (X + ox)\<bar> \<le> \<bar>X + ox\<bar> / 2 ^ 53" by (rule fl_add_error)
  have "\<bar>x - ox\<bar> \<le> D" by (simp add: D_def)
  then have "\<bar>fl_add X ox - x\<bar> \<le> (25 * D + \<bar>ox\<bar>) / 2 ^ 53"
    using X2 X3 D0 unfolding u by argo
  then show "\<bar>fl_add (fl_sub (fl_mul rx (Math_cos a)) (fl_mul ry (Math_sin a))) ox - x\<bar>
           \<le> (25 * D + \<bar>ox\<bar>) / 2 ^ 53"
    by (simp add: X_def)
  define Y where "Y = fl_add (fl_mul rx (Math_sin a)) (fl_mul ry (Math_cos a))"
  have eY: "\<bar>Y - (rx * s + ry * c)\<bar> \<le> 5 * W / 2 ^ 53"
    using rot_error(1)[OF es s1 ec c1, of rx ry] by (simp add: Y_def W_def)
  have "rx * s + ry * c - ty = (rx - ux) * s + (ry - uy) * c"
    using inv(2) by (simp add: algebra_simps)
  then have dY: "\<bar>rx * s + ry * c - ty\<bar> \<le> 10 * T / 2 ^ 53"
    using b2(3,4) erx ery by argo
  have "\<bar>Y - ty\<bar> \<le> \<bar>Y - (rx * s + ry * c)\<bar> + \<bar>rx * s + ry * c - ty\<bar>" by argo
  then have Y1: "\<bar>Y - ty\<bar> \<le> 21 * T / 2 ^ 53" using eY dY n by argo
  have Y2: "\<bar>Y - (y - oy)\<bar> \<le> 23 * D / 2 ^ 53" using Y1 ety TD D0 unfolding D_def u by argo
  have Y3: "\<bar>fl_add Y oy - (Y + oy)\<bar> \<le> \<bar>Y + oy\<bar> / 2 ^ 53" by (rule fl_add_error)
  have "\<bar>y - oy\<bar> \<le> D" by (simp add: D_def)
  then have "\<bar>fl_add Y oy - y\<bar> \<le> (25 * D + \<bar>oy\<bar>) / 2 ^ 53"
    using Y2 Y3 D0 unfolding u by argo
  then show "\<bar>fl_add (fl_add (fl_mul rx (Math_sin a)) (fl_mul ry (Math_cos a))) oy - y\<bar>
           \<le> (25 * D + \<bar>oy\<bar>) / 2 ^ 53"
    by (simp add: Y_def)
qed

lemma far_line_sub: "fl_sub (1 / 536870912) 134217728 = - 134217728"
proof -
  define x :: real where "x = 1 / 536870912 - 134217728"
  have p26: "(2::real) powr (of_int 26) = 2 ^ 26" using powr_realpow[of 2 26] by simp
  have p27: "(2::real) powr (of_int 26 + 1) = 2 ^ 27" using powr_realpow[of 2 27] by simp
  have q: "(2::real) powr (of_int (26 - 52)) = 1 / 2 ^ 26"
    using powr_realpow[of 2 26] by (simp add: powr_minus field_simps)
  have a: "2 powr (of_int 26) \<le> \<bar>x\<bar>" unfolding p26 x_def by simp
  have b: "\<bar>x\<bar> < 2 powr (of_int 26 + 1)" unfolding p27 x_def by simp
  have c: "\<bar>x / 2 powr (of_int (26 - 52)) - of_int (- 9007199254740992)\<bar> < 1 / 2"
    unfolding q x_def by simp
  have "fl x = 2 powr (of_int (26 - 52)) * of_int (- 9007199254740992)"
    by (rule fl_nearest[OF a b c])
  also have "\<dots> = - 134217728" unfolding q by simp
  finally show ?thesis by (simp add: fl_sub_def x_def)
qed

lemma far_angle: "symAngle farLine = 0"
  by (simp add: symAngle_def Math_atan2_def atan2_def fl_sub_def fl_0 fl_1)

lemma far_transform:
  "transform farLine 0 \<lparr>px = 1 / 536870912, py = 0\<rparr> = \<lparr>px = - 134217728, py = 0\<rparr>"
proof -
  have z: "fl_sub 0 0 = 0" "fl_sub (- 134217728) 0 = - 134217728"
    by (simp_all add: fl_sub_def fl_0 fl_neg_numeral)
  show ?thesis
    by (simp add: transform_def far_line_sub z Math_cos_def Math_sin_def fl_1 fl_0
          fl_add_def fl_mul_def fl_neg_numeral)
qed

text \<open>
  C7 (as amended). For every symmetry line, every point \<open>p\<close> and every result that
  carries the angle and the first point of the line, as the result of \<^verbatim>\<open>calculate\<close>
  does: when the coordinates of \<open>p\<close> and of the first point of the line are at most
  \<open>10^4\<close> in absolute value, \<^verbatim>\<open>invRotate\<close> applied to the forward transform of \<open>p\<close>
  is within \<open>1e-9\<close> of \<open>p\<close> in each coordinate. Every operation of both transforms is
  rounded; the error is at most \<open>(25 (|x - x\<^sub>1| + |y - y\<^sub>1|) + |x\<^sub>1|) / 2^53\<close> in the
  first coordinate and the same with \<open>|y\<^sub>1|\<close> in the second (\<open>round_trip_error\<close>). The
  endpoints of the line need not be distinct.
\<close>

theorem transform_round_trip:
  fixes symmetryLine :: symmetry_line and p :: point and result :: MACResult
  defines "q \<equiv> transform symmetryLine (symAngle symmetryLine) p"
  assumes "rotationAngle result = symAngle symmetryLine"
    and "origin result = sp1 symmetryLine"
    and "\<bar>px p\<bar> \<le> 10000" "\<bar>py p\<bar> \<le> 10000"
    and "\<bar>px (sp1 symmetryLine)\<bar> \<le> 10000" "\<bar>py (sp1 symmetryLine)\<bar> \<le> 10000"
  shows "\<bar>px (invRotate result (px q) (py q)) - px p\<bar> < 1 / 1000000000 \<and>
         \<bar>py (invRotate result (px q) (py q)) - py p\<bar> < 1 / 1000000000"
proof -
  define a where "a = symAngle symmetryLine"
  define ox where "ox = px (sp1 symmetryLine)"
  define oy where "oy = py (sp1 symmetryLine)"
  define D where "D = \<bar>px p - ox\<bar> + \<bar>py p - oy\<bar>"
  have u: "(2::real) ^ 53 = 9007199254740992" by simp
  have D: "D \<le> 40000" using assms(4-7) unfolding D_def ox_def oy_def by argo
  note e = round_trip_error[where a = a and x = "px p" and y = "py p" and ox = ox and oy = oy,
      folded D_def]
  have x: "px (invRotate result (px q) (py q)) =
      fl_add (fl_sub (fl_mul (px q) (Math_cos a)) (fl_mul (py q) (Math_sin a))) ox"
    by (simp add: invRotate_def Let_def assms(2,3) a_def ox_def)
  have y: "py (invRotate result (px q) (py q)) =
      fl_add (fl_add (fl_mul (px q) (Math_sin a)) (fl_mul (py q) (Math_cos a))) oy"
    by (simp add: invRotate_def Let_def assms(2,3) a_def oy_def)
  have qx: "px q = fl_sub (fl_mul (fl_sub (px p) ox) (Math_cos (- a)))
                          (fl_mul (fl_sub (py p) oy) (Math_sin (- a)))"
    by (simp add: q_def transform_def Let_def a_def ox_def oy_def)
  have qy: "py q = fl_add (fl_mul (fl_sub (px p) ox) (Math_sin (- a)))
                          (fl_mul (fl_sub (py p) oy) (Math_cos (- a)))"
    by (simp add: q_def transform_def Let_def a_def ox_def oy_def)
  have ex: "\<bar>px (invRotate result (px q) (py q)) - px p\<bar> \<le> (25 * D + \<bar>ox\<bar>) / 2 ^ 53"
    unfolding x unfolding qx qy by (rule e(1))
  have ey: "\<bar>py (invRotate result (px q) (py q)) - py p\<bar> \<le> (25 * D + \<bar>oy\<bar>) / 2 ^ 53"
    unfolding y unfolding qx qy by (rule e(2))
  have "(25 * D + \<bar>ox\<bar>) / 2 ^ 53 < 1 / 1000000000"
    using D assms(6) unfolding ox_def u by argo
  moreover have "(25 * D + \<bar>oy\<bar>) / 2 ^ 53 < 1 / 1000000000"
    using D assms(7) unfolding oy_def u by argo
  ultimately show ?thesis using ex ey by argo
qed

theorem transform_round_trip_witness:
  "\<bar>px (invRotate \<lparr>MAC = 2, Area = 40, MAC_pixels = 2, Y_mac_pixels = 0, X_le_mac_pixels = 0,
                     scaleFactor = 1, rotationAngle = 0, origin = \<lparr>px = 0, py = 0\<rparr>\<rparr>
            (px (transform axisLine (symAngle axisLine) \<lparr>px = 3, py = 4\<rparr>))
            (py (transform axisLine (symAngle axisLine) \<lparr>px = 3, py = 4\<rparr>))) - 3\<bar>
     < 1 / 1000000000 \<and>
   \<bar>py (invRotate \<lparr>MAC = 2, Area = 40, MAC_pixels = 2, Y_mac_pixels = 0, X_le_mac_pixels = 0,
                     scaleFactor = 1, rotationAngle = 0, origin = \<lparr>px = 0, py = 0\<rparr>\<rparr>
            (px (transform axisLine (symAngle axisLine) \<lparr>px = 3, py = 4\<rparr>))
            (py (transform axisLine (symAngle axisLine) \<lparr>px = 3, py = 4\<rparr>))) - 4\<bar>
     < 1 / 1000000000"
  using transform_round_trip[of
      "\<lparr>MAC = 2, Area = 40, MAC_pixels = 2, Y_mac_pixels = 0, X_le_mac_pixels = 0,
        scaleFactor = 1, rotationAngle = 0, origin = \<lparr>px = 0, py = 0\<rparr>\<rparr>"
      axisLine "\<lparr>px = 3, py = 4\<rparr>"]
  by (simp add: axis_angle)

text \<open>
  The claim as written fails for large coordinates: on the line from \<open>(2^27, 0)\<close> to
  \<open>(2^27 + 1, 0)\<close> the point \<open>(2^-29, 0)\<close> is transformed to \<open>(-2^27, 0)\<close>, the
  difference being rounded, and comes back as \<open>(0, 0)\<close>, at the distance
  \<open>2^-29 > 1e-9\<close>.
\<close>

theorem transform_round_trip_counterexample:
  "sp1 farLine \<noteq> sp2 farLine \<and>
   rotationAngle \<lparr>MAC = 2, Area = 40, MAC_pixels = 2, Y_mac_pixels = 0, X_le_mac_pixels = 0,
                  scaleFactor = 1, rotationAngle = 0, origin = \<lparr>px = 134217728, py = 0\<rparr>\<rparr>
     = symAngle farLine \<and>
   origin \<lparr>MAC = 2, Area = 40, MAC_pixels = 2, Y_mac_pixels = 0, X_le_mac_pixels = 0,
           scaleFactor = 1, rotationAngle = 0, origin = \<lparr>px = 134217728, py = 0\<rparr>\<rparr>
     = sp1 farLine \<and>
   px (invRotate \<lparr>MAC = 2, Area = 40, MAC_pixels = 2, Y_mac_pixels = 0, X_le_mac_pixels = 0,
                  scaleFactor = 1, rotationAngle = 0, origin = \<lparr>px = 134217728, py = 0\<rparr>\<rparr>
         (px (transform farLine (symAngle farLine) \<lparr>px = 1 / 536870912, py = 0\<rparr>))
         (py (transform farLine (symAngle farLine) \<lparr>px = 1 / 536870912, py = 0\<rparr>))) = 0 \<and>
   1 / 1000000000 <
   \<bar>px (invRotate \<lparr>MAC = 2, Area = 40, MAC_pixels = 2, Y_mac_pixels = 0, X_le_mac_pixels = 0,
                   scaleFactor = 1, rotationAngle = 0, origin = \<lparr>px = 134217728, py = 0\<rparr>\<rparr>
          (px (transform farLine (symAngle farLine) \<lparr>px = 1 / 536870912, py = 0\<rparr>))
          (py (transform farLine (symAngle farLine) \<lparr>px = 1 / 536870912, py = 0\<rparr>)))
     - px \<lparr>px = 1 / 536870912, py = 0\<rparr>\<bar>"
proof -
  have i: "invRotate \<lparr>MAC = 2, Area = 40, MAC_pixels = 2, Y_mac_pixels = 0, X_le_mac_pixels = 0,
                  scaleFactor = 1, rotationAngle = 0, origin = \<lparr>px = 134217728, py = 0\<rparr>\<rparr>
             (- 134217728) 0 = \<lparr>px = 0, py = 0\<rparr>"
    by (simp add: invRotate_def Math_cos_def Math_sin_def fl_1 fl_0 fl_sub_def fl_add_def
          fl_mul_def fl_neg_numeral)
  show ?thesis
    unfolding far_angle far_transform by (simp add: i)
qed

section \<open>Properties of sampling\<close>

text \<open>
  C9 (as amended). A spline segment with fewer than two knots has no bezier piece and
  produces no samples. A polyline segment with fewer than two points contributes each
  of its points, transformed: no sample when it is empty, one sample when it has one
  point.
\<close>

theorem degenerate_segment_samples:
  assumes "length pts < 2"
  shows "sampleShape (createShapeFromPoints SPLINE pts) tr = [] \<and>
         sampleShape (createShapeFromPoints LINE pts) tr = map tr pts"
  using assms
  by (simp add: sampleShape_def createShapeFromPoints_def CubicSpline_def)

theorem degenerate_segment_samples_witness:
  "sampleShape (createShapeFromPoints SPLINE [\<lparr>px = 1, py = 2\<rparr>]) (\<lambda>p. p) = [] \<and>
   sampleShape (createShapeFromPoints LINE []) (\<lambda>p. p) = []"
  using degenerate_segment_samples[of "[\<lparr>px = 1, py = 2\<rparr>]" "\<lambda>p. p"]
    degenerate_segment_samples[of "[]" "\<lambda>p. p"]
  by simp

text \<open>
  The claim as written fails on a polyline of one point, which produces one sample.
\<close>

theorem degenerate_polyline_counterexample:
  "length [\<lparr>px = 1, py = 2\<rparr>] < 2 \<and>
   sampleShape (createShapeFromPoints LINE [\<lparr>px = 1, py = 2\<rparr>])
     (transform axisLine (symAngle axisLine)) = [\<lparr>px = 1, py = 2\<rparr>] \<and>
   sampleShape (createShapeFromPoints LINE [\<lparr>px = 1, py = 2\<rparr>])
     (transform axisLine (symAngle axisLine)) \<noteq> []"
  by (simp add: sampleShape_def createShapeFromPoints_def axis_angle axis_transform fl_numeral fl_1)

end
